theory Spec2Isabelle
  imports Main "HOL-Library.AList"
begin

section \<open>UUID codec (bindings.js, packUUID and unpackUUID)\<close>

text \<open>
  A JavaScript string is a sequence of UTF-16 code units. The two functions of the codec
  are first translated for code units of any type: \<open>lower\<close> stands for
  \<open>String.prototype.toLowerCase\<close> and \<open>hyphen\<close> for the code unit of the character
  \<open>-\<close>. The length of a string is its number of code units.
\<close>

text \<open>
  \<open>s.slice(a, b)\<close> for non-negative indices: the code units from index \<open>a\<close> up to,
  not including, index \<open>b\<close>, both clamped to the length of the string.
\<close>

definition slice :: "nat \<Rightarrow> nat \<Rightarrow> 'c list \<Rightarrow> 'c list" where
  "slice a b s = take (b - a) (drop a s)"

text \<open>\<open>parts.join(sep)\<close>.\<close>

fun join :: "'c list \<Rightarrow> 'c list list \<Rightarrow> 'c list" where
  "join sep [] = []"
| "join sep [p] = p"
| "join sep (p # q # ps) = p @ sep @ join sep (q # ps)"

text \<open>\<open>s.replace(/-/g, "")\<close>: every hyphen is removed.\<close>

definition remove_all :: "'c \<Rightarrow> 'c list \<Rightarrow> 'c list" where
  "remove_all hyphen s = filter (\<lambda>c. c \<noteq> hyphen) s"

definition packUUID_of :: "('c list \<Rightarrow> 'c list) \<Rightarrow> 'c \<Rightarrow> 'c list \<Rightarrow> 'c list" where
  "packUUID_of lower hyphen uuid = lower (remove_all hyphen uuid)"

definition unpackUUID_of :: "('c list \<Rightarrow> 'c list) \<Rightarrow> 'c \<Rightarrow> 'c list \<Rightarrow> 'c list" where
  "unpackUUID_of lower hyphen uuid =
     (if length uuid = 32
      then lower (join [hyphen]
             [slice 0 8 uuid, slice 8 12 uuid, slice 12 16 uuid, slice 16 20 uuid,
              slice 20 32 uuid])
      else lower uuid)"

subsection \<open>Strings of code units below U+0100\<close>

text \<open>
  The UUIDs and identifiers that the bindings handle are written with code units below
  U+0100, and the rest of the development models such strings as \<open>string\<close>, one
  \<open>char\<close> for the code unit of the same number. On these strings
  \<open>String.prototype.toLowerCase\<close> works unit by unit: the letters A to Z and the capital
  letters U+00C0 to U+00D6 and U+00D8 to U+00DE are mapped to the unit 32 positions
  later, and every other unit is left as it is.
\<close>

definition upper_case_units :: string where
  "upper_case_units =
     ''ABCDEFGHIJKLMNOPQRSTUVWXYZ'' @
     [CHR 0xC0, CHR 0xC1, CHR 0xC2, CHR 0xC3, CHR 0xC4, CHR 0xC5,
      CHR 0xC6, CHR 0xC7, CHR 0xC8, CHR 0xC9, CHR 0xCA, CHR 0xCB,
      CHR 0xCC, CHR 0xCD, CHR 0xCE, CHR 0xCF, CHR 0xD0, CHR 0xD1,
      CHR 0xD2, CHR 0xD3, CHR 0xD4, CHR 0xD5, CHR 0xD6, CHR 0xD8,
      CHR 0xD9, CHR 0xDA, CHR 0xDB, CHR 0xDC, CHR 0xDD, CHR 0xDE]"

definition lower_case_units :: string where
  "lower_case_units =
     ''abcdefghijklmnopqrstuvwxyz'' @
     [CHR 0xE0, CHR 0xE1, CHR 0xE2, CHR 0xE3, CHR 0xE4, CHR 0xE5,
      CHR 0xE6, CHR 0xE7, CHR 0xE8, CHR 0xE9, CHR 0xEA, CHR 0xEB,
      CHR 0xEC, CHR 0xED, CHR 0xEE, CHR 0xEF, CHR 0xF0, CHR 0xF1,
      CHR 0xF2, CHR 0xF3, CHR 0xF4, CHR 0xF5, CHR 0xF6, CHR 0xF8,
      CHR 0xF9, CHR 0xFA, CHR 0xFB, CHR 0xFC, CHR 0xFD, CHR 0xFE]"

definition toLowerCase_char :: "char \<Rightarrow> char" where
  "toLowerCase_char c =
     (case map_of (zip upper_case_units lower_case_units) c of
        Some l \<Rightarrow> l
      | None \<Rightarrow> c)"

definition toLowerCase :: "string \<Rightarrow> string" where
  "toLowerCase s = map toLowerCase_char s"

definition replace_hyphens :: "string \<Rightarrow> string" where
  "replace_hyphens s = remove_all (CHR ''-'') s"

definition packUUID :: "string \<Rightarrow> string" where
  "packUUID uuid = packUUID_of toLowerCase (CHR ''-'') uuid"

definition unpackUUID :: "string \<Rightarrow> string" where
  "unpackUUID uuid = unpackUUID_of toLowerCase (CHR ''-'') uuid"

subsection \<open>What the specification calls a valid UUID and its canonical form\<close>

text \<open>
  These two definitions follow the words of the specification, not the code: a 128-bit
  UUID is written with 32 hexadecimal digits, in either case, either without separators
  or with hyphens after the 8th, 12th, 16th and 20th digit. Its canonical form is made of
  the same digits in lower case in the grouping 8-4-4-4-12.
\<close>

definition is_hex_digit :: "char \<Rightarrow> bool" where
  "is_hex_digit c \<longleftrightarrow> c \<in> set ''0123456789abcdefABCDEF''"

definition valid_uuid128 :: "string \<Rightarrow> bool" where
  "valid_uuid128 x \<longleftrightarrow>
     (length x = 32 \<and> list_all is_hex_digit x) \<or>
     (length x = 36 \<and> x ! 8 = CHR ''-'' \<and> x ! 13 = CHR ''-'' \<and> x ! 18 = CHR ''-'' \<and>
      x ! 23 = CHR ''-'' \<and>
      list_all is_hex_digit
        (take 8 x @ take 4 (drop 9 x) @ take 4 (drop 14 x) @ take 4 (drop 19 x) @ drop 24 x))"

fun hex_lower :: "char \<Rightarrow> char" where
  "hex_lower c =
     (if c = CHR ''A'' then CHR ''a'' else if c = CHR ''B'' then CHR ''b''
      else if c = CHR ''C'' then CHR ''c'' else if c = CHR ''D'' then CHR ''d''
      else if c = CHR ''E'' then CHR ''e'' else if c = CHR ''F'' then CHR ''f'' else c)"

definition canonical_uuid :: "string \<Rightarrow> string" where
  "canonical_uuid x =
     (let d = map hex_lower (filter is_hex_digit x)
      in take 8 d @ ''-'' @ take 4 (drop 8 d) @ ''-'' @ take 4 (drop 12 d) @ ''-'' @
         take 4 (drop 16 d) @ ''-'' @ take 12 (drop 20 d))"

section \<open>Operation queue (queue.js, AsyncQueue)\<close>

text \<open>
  A task is the object \<open>{action, resolve, reject}\<close> that \<open>enqueue\<close> builds. The pair
  \<open>resolve\<close>/\<open>reject\<close> belongs to the promise returned by that call of \<open>enqueue\<close>;
  the model names this promise by a ticket, the number of \<open>enqueue\<close> calls made on the
  queue before it, and records every call of \<open>task.resolve\<close> and \<open>task.reject\<close> in
  the log \<open>futures\<close>.

  An action is a caller-supplied function. The queue calls it as \<open>task.action(this)\<close> and
  awaits the result. What the call does before it returns is part of the action: the
  actions it passes to \<open>enqueue\<close> of the queue it was given, and whether it throws
  (\<open>Some e\<close>) or returns a value or promise that is then awaited (\<open>None\<close>). How and when
  an awaited result settles is decided by the environment, see \<open>settle\<close>.
\<close>

datatype outcome = Resolved string | Rejected string

datatype action = Action (sync_enqueues: "action list") (sync_throws: "string option")

type_synonym task = "nat \<times> action"

record AsyncQueue =
  pendingPromise :: bool
  tasks :: "task list"
  enqueued :: nat
  started :: "nat list"
  awaiting :: "nat list"
  futures :: "(nat \<times> outcome) list"

text \<open>
  \<open>pendingPromise\<close> and \<open>tasks\<close> are the two fields of the source object. The other
  fields observe the run: \<open>enqueued\<close> counts the calls of \<open>enqueue\<close>, \<open>started\<close> lists the
  tickets in the order in which their actions were called, and \<open>awaiting\<close> lists the
  tickets of the calls of \<open>dequeue\<close> that are suspended at \<open>await task.action(this)\<close>,
  that is, of the tasks that are executing.
\<close>

definition AsyncQueue_new :: AsyncQueue where
  "AsyncQueue_new =
     \<lparr>pendingPromise = False, tasks = [], enqueued = 0, started = [], awaiting = [],
      futures = []\<rparr>"

definition getNextTask :: "AsyncQueue \<Rightarrow> task option \<times> AsyncQueue" where
  "getNextTask q = (case tasks q of [] \<Rightarrow> (None, q) | t # ts \<Rightarrow> (Some t, q\<lparr>tasks := ts\<rparr>))"

definition addTask :: "task \<Rightarrow> AsyncQueue \<Rightarrow> AsyncQueue" where
  "addTask t q = q\<lparr>tasks := tasks q @ [t]\<rparr>"

definition queue_size :: "AsyncQueue \<Rightarrow> nat" where
  "queue_size q = length (tasks q)"

text \<open>
  A call of \<open>enqueue\<close> made while \<open>pendingPromise\<close> is set, as every call made by a
  running action is: the task is added, and the call of \<open>dequeue\<close> that follows returns
  \<open>false\<close> at its first test.
\<close>

definition enqueue_while_pending :: "action \<Rightarrow> AsyncQueue \<Rightarrow> AsyncQueue" where
  "enqueue_while_pending a q = addTask (enqueued q, a) (q\<lparr>enqueued := Suc (enqueued q)\<rparr>)"

fun weight :: "action \<Rightarrow> nat" where
  "weight (Action subs thr) = Suc (sum_list (map weight subs))"

text \<open>
  \<open>dequeue\<close> up to the point where it either returns or is suspended at the \<open>await\<close>.
  When the action throws, the \<open>catch\<close> block clears the flag and rejects the task's
  promise, and the \<open>finally\<close> block calls \<open>dequeue\<close> again.
\<close>

function dequeue :: "AsyncQueue \<Rightarrow> AsyncQueue" where
  "dequeue q =
     (if pendingPromise q then q
      else case getNextTask q of
        (None, _) \<Rightarrow> q
      | (Some (k, a), q0) \<Rightarrow>
          let q1 = q0\<lparr>pendingPromise := True, started := started q0 @ [k]\<rparr>;
              q2 = fold enqueue_while_pending (sync_enqueues a) q1
          in (case sync_throws a of
                None \<Rightarrow> q2\<lparr>awaiting := awaiting q2 @ [k]\<rparr>
              | Some e \<Rightarrow>
                  dequeue (q2\<lparr>pendingPromise := False,
                               futures := futures q2 @ [(k, Rejected e)]\<rparr>)))"
  by pat_completeness auto
termination
proof (relation "measure (\<lambda>q. sum_list (map (weight \<circ> snd) (tasks q)))", goal_cases)
  case 1
  show ?case by simp
next
  case (2 q x y z k a q1 q2 e)
  have fold_tasks: "sum_list (map (weight \<circ> snd) (tasks (fold enqueue_while_pending subs p)))
      = sum_list (map (weight \<circ> snd) (tasks p)) + sum_list (map weight subs)" for subs p
    by (induction subs arbitrary: p) (simp_all add: enqueue_while_pending_def addTask_def)
  from 2 have "tasks q = (k, a) # tasks y"
    by (auto simp: getNextTask_def split: list.splits)
  moreover have "weight a = Suc (sum_list (map weight (sync_enqueues a)))"
    by (cases a) simp
  ultimately show ?case
    using 2 fold_tasks [of "sync_enqueues a" q1] by auto
qed

declare dequeue.simps [simp del]

text \<open>\<open>enqueue\<close>: the executor of the new promise adds the task and calls \<open>dequeue\<close>.\<close>

definition enqueue :: "action \<Rightarrow> AsyncQueue \<Rightarrow> AsyncQueue" where
  "enqueue a q = dequeue (addTask (enqueued q, a) (q\<lparr>enqueued := Suc (enqueued q)\<rparr>))"

text \<open>
  The awaited result of the executing task \<open>k\<close> settles and the suspended call of
  \<open>dequeue\<close> resumes: on fulfilment it clears the flag and resolves the task's promise,
  on rejection the \<open>catch\<close> block clears the flag and rejects the task's promise; in
  both cases the \<open>finally\<close> block calls \<open>dequeue\<close>. Nothing happens for a ticket that
  is not awaited.
\<close>

definition settle :: "nat \<Rightarrow> outcome \<Rightarrow> AsyncQueue \<Rightarrow> AsyncQueue" where
  "settle k out q =
     (if k \<in> set (awaiting q)
      then dequeue (q\<lparr>awaiting := removeAll k (awaiting q), pendingPromise := False,
                      futures := futures q @ [(k, out)]\<rparr>)
      else q)"

text \<open>
  What can happen to a queue: a caller enqueues an action, or the awaited result of an
  executing task settles. A run applies a sequence of such events to a new queue.
\<close>

datatype queue_event = Enqueue action | Settle nat outcome

fun queue_step :: "AsyncQueue \<Rightarrow> queue_event \<Rightarrow> AsyncQueue" where
  "queue_step q (Enqueue a) = enqueue a q"
| "queue_step q (Settle k out) = settle k out q"

definition queue_run :: "queue_event list \<Rightarrow> AsyncQueue" where
  "queue_run evs = foldl queue_step AsyncQueue_new evs"

text \<open>
  The invariant of a run, for \<open>s\<close> tasks started and \<open>f\<close> of them finished. Tickets are
  handed out in the order of the \<open>enqueue\<close> calls, so a list of tickets is in enqueue
  order when it is an interval \<open>[i..<j]\<close>.
\<close>

definition queue_ordered :: "nat \<Rightarrow> nat \<Rightarrow> AsyncQueue \<Rightarrow> bool" where
  "queue_ordered s f q \<longleftrightarrow>
     started q = [0..<s] \<and> map fst (futures q) = [0..<f] \<and>
     map fst (tasks q) = [s..<enqueued q] \<and> s \<le> enqueued q"

definition queue_inv :: "nat \<Rightarrow> nat \<Rightarrow> AsyncQueue \<Rightarrow> bool" where
  "queue_inv s f q \<longleftrightarrow>
     queue_ordered s f q \<and> awaiting q = [f..<s] \<and> f \<le> s \<and> s \<le> Suc f \<and>
     pendingPromise q = (f < s) \<and> (pendingPromise q \<or> tasks q = [])"

section \<open>Bindings (bindings.js, NobleBindings)\<close>

subsection \<open>Errors, events and listeners\<close>

text \<open>
  \<open>TypeError\<close> is the exception that JavaScript throws when a property of \<open>undefined\<close>
  or \<open>null\<close> is read or when something that is not a function is called. \<open>Rejected_by\<close>
  is a promise of the transport (the node-ble library) that rejected.
\<close>

datatype error = TypeError | Rejected_by string

record advertisement =
  adv_localName :: "string option"
  adv_serviceUuids :: "string list"
  adv_serviceData :: "(string \<times> nat list) list"

text \<open>
  The events that the bindings emit. In \<open>discover\<close> the argument \<open>device.rssi\<close> is
  always \<open>undefined\<close> (no code sets it) and is left out; the last argument is
  \<open>device.gatt !== undefined\<close>.
\<close>

datatype event =
    StateChange string
  | ScanStart
  | ScanStop
  | Discover string string string bool advertisement bool
  | Connect string
  | Disconnect string
  | CharacteristicsDiscover string string "(string \<times> string list) list"
  | Read string string string "nat list" bool
  | Write string string string
  | Notify string string string bool

text \<open>
  The objects of the transport (a device, a GATT characteristic) are event emitters. The
  bindings register three kinds of listener on them: \<open>this.onConnect.bind(this)\<close>,
  \<open>this.onDisconnect.bind(this)\<close> and the arrow function of \<open>notify\<close> that calls
  \<open>this.onNotify(deviceUuid, serviceUuid, characteristicUuid, e)\<close>. An emitter is the
  list of its registered listeners with their event names, in registration order.
\<close>

datatype listener = OnConnect | OnDisconnect | OnNotify string string string

type_synonym emitter = "(string \<times> listener) list"

definition emitter_on :: "string \<Rightarrow> listener \<Rightarrow> emitter \<Rightarrow> emitter" where
  "emitter_on name l em = em @ [(name, l)]"

definition removeAllListeners :: "string \<Rightarrow> emitter \<Rightarrow> emitter" where
  "removeAllListeners name em = filter (\<lambda>p. fst p \<noteq> name) em"

definition listeners :: "string \<Rightarrow> emitter \<Rightarrow> listener list" where
  "listeners name em = map snd (filter (\<lambda>p. fst p = name) em)"

subsection \<open>State\<close>

text \<open>
  JavaScript objects used as dictionaries are association lists, read with \<open>map_of\<close>
  and written with \<open>AList.update\<close>. Their keys are UUIDs and device identifiers; the
  properties that every object inherits from \<open>Object.prototype\<close> are not modelled.
  A property that may be \<open>undefined\<close> has an option type.
\<close>

record characteristic_entry =
  characteristic :: emitter
  readQueue :: AsyncQueue
  writeQueue :: AsyncQueue

record device =
  uuid :: string
  address :: string
  addressType :: string
  bleDevice :: "emitter option"
  paired :: bool
  cachedServices :: "string list"
  cachedCharacteristics :: "(string \<times> (string \<times> characteristic_entry) list) list option"
  localName :: "string option"
  serviceUuids :: "string list option"
  advertisement :: advertisement
  gattServer :: bool

text \<open>
  \<open>cachedServices\<close> keeps the keys of the cached service objects and \<open>gattServer\<close>
  whether the property is set; the manufacturer data of the advertisement is not
  modelled. \<open>adapter\<close> tells whether \<open>this._adapter\<close> has been set by \<open>init\<close>.
  \<open>device_by_address\<close> is the property \<open>_device_by_address\<close>, which the constructor
  does not create. \<open>timers\<close> lists the timeouts that are armed and \<open>timer_count\<close> is
  the next identifier that \<open>setTimeout\<close> returns. \<open>emitted\<close> is the log of the events
  emitted so far.
\<close>

record NobleBindings =
  adapter :: bool
  device_by_uuid :: "(string \<times> device) list"
  device_by_address :: "(string \<times> device) list option"
  serviceUuidFilterList :: "string list"
  discoveryProcessId :: "nat option"
  timers :: "nat list"
  timer_count :: nat
  emitted :: "event list"

definition NobleBindings_new :: NobleBindings where
  "NobleBindings_new =
     \<lparr>adapter = False, device_by_uuid = [], device_by_address = None,
      serviceUuidFilterList = [], discoveryProcessId = None, timers = [], timer_count = 0,
      emitted = []\<rparr>"

definition emit :: "event \<Rightarrow> NobleBindings \<Rightarrow> NobleBindings" where
  "emit ev st = st\<lparr>emitted := emitted st @ [ev]\<rparr>"

definition setTimeout :: "NobleBindings \<Rightarrow> nat \<times> NobleBindings" where
  "setTimeout st =
     (timer_count st,
      st\<lparr>timers := timers st @ [timer_count st], timer_count := Suc (timer_count st)\<rparr>)"

definition clearTimeout :: "nat \<Rightarrow> NobleBindings \<Rightarrow> NobleBindings" where
  "clearTimeout t st = st\<lparr>timers := removeAll t (timers st)\<rparr>"

text \<open>The scheduler runs the callback of the armed timeout \<open>t\<close>, which is then spent.\<close>

definition timeout_fires :: "nat \<Rightarrow> NobleBindings \<Rightarrow> NobleBindings" where
  "timeout_fires t st = st\<lparr>timers := removeAll t (timers st)\<rparr>"

text \<open>\<open>init\<close>, after \<open>bluetooth.defaultAdapter()\<close> has answered.\<close>

definition init :: "error + unit \<Rightarrow> NobleBindings \<Rightarrow> NobleBindings" where
  "init answer st =
     (case answer of
        Inl e \<Rightarrow> st
      | Inr _ \<Rightarrow> emit (StateChange ''poweredOn'') (st\<lparr>adapter := True\<rparr>))"

subsection \<open>startScanning\<close>

text \<open>
  The argument \<open>options\<close> of \<open>startScanning\<close> is an arbitrary JavaScript value.
\<close>

datatype jsval =
    Undefined
  | Null
  | JBool bool
  | JStr string
  | JArr "jsval list"
  | JObj "(string \<times> jsval) list"

text \<open>\<open>Array.isArray(v)\<close> and \<open>typeof v === 'object'\<close>.\<close>

fun isArray :: "jsval \<Rightarrow> bool" where
  "isArray (JArr xs) = True"
| "isArray v = False"

fun typeof_object :: "jsval \<Rightarrow> bool" where
  "typeof_object Null = True"
| "typeof_object (JArr xs) = True"
| "typeof_object (JObj ps) = True"
| "typeof_object v = False"

text \<open>
  \<open>options.services\<close>: reading a property of \<open>undefined\<close> or \<open>null\<close> throws; an
  object gives the value of the property or \<open>undefined\<close>; the other values have no
  property of that name.
\<close>

fun get_services :: "jsval \<Rightarrow> error + jsval" where
  "get_services Undefined = Inl TypeError"
| "get_services Null = Inl TypeError"
| "get_services (JObj ps) =
     (case map_of ps ''services'' of None \<Rightarrow> Inr Undefined | Some v \<Rightarrow> Inr v)"
| "get_services v = Inr Undefined"

text \<open>
  \<open>packUUID(uuid)\<close> on a JavaScript value: \<open>uuid.replace\<close> exists on strings only.
\<close>

fun packUUID_value :: "jsval \<Rightarrow> error + string" where
  "packUUID_value (JStr s) = Inr (packUUID s)"
| "packUUID_value v = Inl TypeError"

fun map_packUUID :: "jsval list \<Rightarrow> error + string list" where
  "map_packUUID [] = Inr []"
| "map_packUUID (v # vs) =
     (case packUUID_value v of
        Inl e \<Rightarrow> Inl e
      | Inr u \<Rightarrow> (case map_packUUID vs of Inl e \<Rightarrow> Inl e | Inr us \<Rightarrow> Inr (u # us)))"

text \<open>
  The first statements of \<open>startScanning\<close>, which turn \<open>options\<close> into the list
  \<open>options.services\<close> of packed UUIDs. The last one calls \<open>options.services.map\<close>, which
  throws when \<open>options.services\<close> is \<open>undefined\<close>.
\<close>

definition normalize_options :: "jsval \<Rightarrow> error + string list" where
  "normalize_options options =
     (let o1 = (if isArray options then JObj [(''services'', options)] else options);
          o2 = (if \<not> typeof_object o1 then JObj [(''services'', o1)] else o1)
      in case get_services o2 of
           Inl e \<Rightarrow> Inl e
         | Inr s \<Rightarrow>
             (case (if s \<noteq> Undefined \<and> \<not> isArray s then JArr [s] else s) of
                JArr vs \<Rightarrow> map_packUUID vs
              | _ \<Rightarrow> Inl TypeError))"

text \<open>
  \<open>startScanning\<close> up to the call of \<open>this._adapter.isDiscovering()\<close>: it returns the
  normalized filter, with which the callbacks continue, or the exception thrown.
\<close>

definition startScanning :: "jsval \<Rightarrow> NobleBindings \<Rightarrow> error + string list" where
  "startScanning options st =
     (case normalize_options options of
        Inl e \<Rightarrow> Inl e
      | Inr services \<Rightarrow> if adapter st then Inr services else Inl TypeError)"

text \<open>
  The callback for the answer of \<open>isDiscovering\<close>; the result tells whether
  \<open>startDiscovery\<close> is requested. Then the callback for the answer of \<open>startDiscovery\<close>.
\<close>

definition startScanning_discovering ::
  "string list \<Rightarrow> error + bool \<Rightarrow> NobleBindings \<Rightarrow> bool \<times> NobleBindings" where
  "startScanning_discovering services answer st =
     (case answer of
        Inl e \<Rightarrow> (False, st)
      | Inr discovering \<Rightarrow>
          if \<not> discovering then (True, st\<lparr>serviceUuidFilterList := services\<rparr>)
          else (False, st))"

definition startScanning_started :: "error + unit \<Rightarrow> NobleBindings \<Rightarrow> NobleBindings" where
  "startScanning_started answer st =
     (case answer of
        Inl e \<Rightarrow> st
      | Inr _ \<Rightarrow>
          let st1 = emit ScanStart st;
              st2 = (case discoveryProcessId st1 of None \<Rightarrow> st1 | Some t \<Rightarrow> clearTimeout t st1);
              (t, st3) = setTimeout st2
          in st3\<lparr>discoveryProcessId := Some t\<rparr>)"

subsection \<open>stopScanning\<close>

text \<open>
  \<open>stopScanning\<close> calls \<open>this._adapter.isDiscovering()\<close> and returns. The state is
  touched by the innermost callback only, which runs when the transport has reported
  that it is discovering and has then stopped the discovery; \<open>stopScanning_answered\<close>
  takes both answers.
\<close>

definition stopScanning :: "NobleBindings \<Rightarrow> error + unit" where
  "stopScanning st = (if adapter st then Inr () else Inl TypeError)"

definition stopScanning_answered ::
  "error + bool \<Rightarrow> error + unit \<Rightarrow> NobleBindings \<Rightarrow> NobleBindings" where
  "stopScanning_answered discovering stopped st =
     (case discovering of
        Inl e \<Rightarrow> st
      | Inr False \<Rightarrow> st
      | Inr True \<Rightarrow>
          (case stopped of
             Inl e \<Rightarrow> st
           | Inr _ \<Rightarrow>
               let st1 = emit ScanStop st;
                   st2 = st1\<lparr>device_by_address := Some []\<rparr>
               in (case discoveryProcessId st2 of
                     None \<Rightarrow> st2
                   | Some t \<Rightarrow> (clearTimeout t st2)\<lparr>discoveryProcessId := None\<rparr>)))"

subsection \<open>Advertisement data and the discovery tick\<close>

text \<open>
  The answers of the transport to the queries that \<open>_getAdvertisementData\<close> makes on the
  device object returned by \<open>getDevice(address)\<close>; \<open>ans_device\<close> is the property
  \<open>device\<close> of that object. The query for the manufacturer data is left out, as its
  result is.
\<close>

record device_answers =
  ans_device :: string
  ans_address :: "error + string"
  ans_addressType :: "error + string"
  ans_paired :: "error + bool"
  ans_name :: "error + string"
  ans_serviceData :: "error + (string \<times> nat list) list"
  ans_serviceUUIDs :: "error + string list"

text \<open>
  \<open>_getAdvertisementData\<close>: the queries for the address, the address type and the
  pairing state are awaited outside any \<open>try\<close>, so their rejection rejects the whole
  call, as the rejection of \<open>getDevice\<close> does. The other queries are each wrapped in a
  \<open>try\<close> with an empty \<open>catch\<close>.
\<close>

definition getAdvertisementData :: "error + device_answers \<Rightarrow> error + device" where
  "getAdvertisementData fetched =
     (case fetched of
        Inl e \<Rightarrow> Inl e
      | Inr ans \<Rightarrow>
     (case ans_address ans of
        Inl e \<Rightarrow> Inl e
      | Inr addr \<Rightarrow>
     (case ans_addressType ans of
        Inl e \<Rightarrow> Inl e
      | Inr atype \<Rightarrow>
     (case ans_paired ans of
        Inl e \<Rightarrow> Inl e
      | Inr p \<Rightarrow>
          let name = (case ans_name ans of Inl e \<Rightarrow> None | Inr n \<Rightarrow> Some n);
              sdata = (case ans_serviceData ans of
                         Inl e \<Rightarrow> []
                       | Inr kvs \<Rightarrow> map (\<lambda>(k, v). (packUUID k, v)) kvs);
              suuids = (case ans_serviceUUIDs ans of Inl e \<Rightarrow> None | Inr us \<Rightarrow> Some us)
          in Inr \<lparr>uuid = ans_device ans, address = addr, addressType = atype,
                  bleDevice = Some [], paired = p, cachedServices = [],
                  cachedCharacteristics = None, localName = name, serviceUuids = suuids,
                  advertisement =
                    \<lparr>adv_localName = name,
                     adv_serviceUuids = (case suuids of None \<Rightarrow> [] | Some us \<Rightarrow> map packUUID us),
                     adv_serviceData = sdata\<rparr>,
                  gattServer = False\<rparr>))))"

text \<open>
  \<open>_isAdvertisingWantedCriteria\<close>. The loop \<open>for (i in device.serviceUuids)\<close> runs over
  the indices of \<open>device.serviceUuids\<close> (over nothing when that property is
  \<open>undefined\<close>) and reads \<open>device.advertisement.serviceUuids[i]\<close>, which is
  \<open>undefined\<close>, and so not in the filter, when \<open>i\<close> is out of range. The test that
  \<open>device.advertisement.serviceUuids\<close> is an array always succeeds.
\<close>

fun wanted_loop :: "string list \<Rightarrow> string list \<Rightarrow> nat list \<Rightarrow> bool" where
  "wanted_loop flt adv_uuids [] = False"
| "wanted_loop flt adv_uuids (i # is) =
     (if i < length adv_uuids \<and> adv_uuids ! i \<in> set flt then True
      else wanted_loop flt adv_uuids is)"

definition isAdvertisingWantedCriteria :: "NobleBindings \<Rightarrow> device \<Rightarrow> bool" where
  "isAdvertisingWantedCriteria st device =
     (if length (serviceUuidFilterList st) = 0 then True
      else wanted_loop (serviceUuidFilterList st) (adv_serviceUuids (advertisement device))
             (case serviceUuids device of None \<Rightarrow> [] | Some us \<Rightarrow> [0..<length us]))"

text \<open>
  \<open>_onScanningDurationElapsed\<close> is the timer callback. It asks the transport for the
  list of devices. In the callback for that list, \<open>forEach\<close> calls
  \<open>_getAdvertisementData\<close> for every address whose identifier
  \<open>serializeUUID(address)\<close> is not in the registry; the registry does not change
  during the \<open>forEach\<close>, since the callbacks of those calls run later.
  \<open>serializeUUID\<close> is a function of the transport library and a parameter here.
\<close>

definition onScanningDurationElapsed :: "NobleBindings \<Rightarrow> error + unit" where
  "onScanningDurationElapsed st = (if adapter st then Inr () else Inl TypeError)"


text \<open>The \<open>finally\<close> callback of the tick rearms the timer unless scanning was stopped.\<close>

definition tick_finally :: "NobleBindings \<Rightarrow> NobleBindings" where
  "tick_finally st =
     (case discoveryProcessId st of
        None \<Rightarrow> st
      | Some _ \<Rightarrow> (let (t, st1) = setTimeout st in st1\<lparr>discoveryProcessId := Some t\<rparr>))"

text \<open>
  The callbacks of \<open>_getAdvertisementData(address)\<close> inside the tick, for the
  identifier \<open>uuid\<close> of the address: the \<open>then\<close> callback when the call fulfils with a
  device, the \<open>catch\<close> callback, which only logs, when it rejects.
\<close>

definition advertisement_fetched :: "string \<Rightarrow> error + device \<Rightarrow> NobleBindings \<Rightarrow> NobleBindings" where
  "advertisement_fetched uuid' fetched st =
     (case fetched of
        Inl e \<Rightarrow> st
      | Inr device \<Rightarrow>
          if isAdvertisingWantedCriteria st device then
            (let st1 =
               (if map_of (device_by_uuid st) uuid' = None
                then emit (Discover (uuid device) (address device) (addressType device)
                             (\<not> paired device) (advertisement device) False)
                       (st\<lparr>device_by_uuid := AList.update uuid' device (device_by_uuid st)\<rparr>)
                else st)
             in st1\<lparr>device_by_uuid := AList.update uuid' device (device_by_uuid st1)\<rparr>)
          else
            st\<lparr>device_by_uuid :=
                 AList.update uuid' (device\<lparr>bleDevice := None\<rparr>) (device_by_uuid st)\<rparr>)"

text \<open>
  The fetches of a tick complete in some order, each with the answers of the transport
  for its address.
\<close>

definition fetches_completed ::
  "(string \<Rightarrow> string) \<Rightarrow> (string \<times> (error + device_answers)) list \<Rightarrow> NobleBindings \<Rightarrow>
   NobleBindings" where
  "fetches_completed serializeUUID completions st =
     fold (\<lambda>(address', answers).
             advertisement_fetched (serializeUUID address') (getAdvertisementData answers))
       completions st"








subsection \<open>Connection\<close>

text \<open>
  \<open>connect\<close> up to the call of \<open>isConnected\<close>. For a registered device without
  \<open>bleDevice\<close> (one that failed the filter) \<open>device.bleDevice.on\<close> throws. Then the
  callback for the answer of \<open>isConnected\<close>; the result tells whether
  \<open>device.bleDevice.connect()\<close> is called. The promise has no rejection handler.
\<close>

definition connect :: "string \<Rightarrow> NobleBindings \<Rightarrow> error + NobleBindings" where
  "connect deviceUuid st =
     (case map_of (device_by_uuid st) deviceUuid of
        None \<Rightarrow> Inr st
      | Some device \<Rightarrow>
          (case bleDevice device of
             None \<Rightarrow> Inl TypeError
           | Some h \<Rightarrow>
               let h1 = emitter_on ''connect'' OnConnect h;
                   h2 = emitter_on ''disconnect'' OnDisconnect h1
               in Inr (st\<lparr>device_by_uuid :=
                           AList.update deviceUuid (device\<lparr>bleDevice := Some h2\<rparr>)
                             (device_by_uuid st)\<rparr>)))"

definition connect_answered :: "string \<Rightarrow> bool \<Rightarrow> NobleBindings \<Rightarrow> bool \<times> NobleBindings" where
  "connect_answered deviceUuid connected st =
     (if connected then (False, emit (Connect deviceUuid) st) else (True, st))"

text \<open>\<open>onConnect\<close> and \<open>onDisconnect\<close>; the argument is \<open>e.deviceUuid\<close>.\<close>

definition onConnect :: "string \<Rightarrow> NobleBindings \<Rightarrow> NobleBindings" where
  "onConnect deviceUuid st =
     (case map_of (device_by_uuid st) deviceUuid of
        None \<Rightarrow> st
      | Some device \<Rightarrow>
          emit (Connect deviceUuid)
            (st\<lparr>device_by_uuid :=
                  AList.update deviceUuid
                    (device\<lparr>cachedServices := [], cachedCharacteristics := Some []\<rparr>)
                    (device_by_uuid st)\<rparr>))"

definition onDisconnect :: "string \<Rightarrow> NobleBindings \<Rightarrow> NobleBindings" where
  "onDisconnect deviceUuid st =
     (case map_of (device_by_uuid st) deviceUuid of
        None \<Rightarrow> st
      | Some device \<Rightarrow>
          emit (Disconnect deviceUuid)
            (st\<lparr>device_by_uuid :=
                  AList.update deviceUuid
                    (device\<lparr>cachedServices := [], cachedCharacteristics := Some []\<rparr>)
                    (device_by_uuid st)\<rparr>))"

definition onNotify ::
  "string \<Rightarrow> string \<Rightarrow> string \<Rightarrow> nat list \<Rightarrow> NobleBindings \<Rightarrow> NobleBindings" where
  "onNotify deviceUuid serviceUuid characteristicUuid e st =
     emit (Read deviceUuid serviceUuid characteristicUuid e True) st"

text \<open>
  An emitter of the transport emits an event: its listeners for that name are called in
  registration order. A device object emits \<open>connect\<close> and \<open>disconnect\<close> with an
  event object that carries \<open>deviceUuid\<close>; a characteristic object emits
  \<open>valuechanged\<close> with the new value.
\<close>

datatype payload = Device_event string | Value "nat list"

fun call_listener :: "payload \<Rightarrow> listener \<Rightarrow> NobleBindings \<Rightarrow> NobleBindings" where
  "call_listener (Device_event d) OnConnect st = onConnect d st"
| "call_listener (Device_event d) OnDisconnect st = onDisconnect d st"
| "call_listener (Value v) (OnNotify d s c) st = onNotify d s c v st"
| "call_listener p l st = st"

definition emitter_emit :: "string \<Rightarrow> payload \<Rightarrow> emitter \<Rightarrow> NobleBindings \<Rightarrow> NobleBindings" where
  "emitter_emit name p em st = fold (call_listener p) (listeners name em) st"

text \<open>The device object of a registered device, and that object emitting an event.\<close>

definition device_handle :: "string \<Rightarrow> NobleBindings \<Rightarrow> emitter" where
  "device_handle deviceUuid st =
     (case map_of (device_by_uuid st) deviceUuid of
        None \<Rightarrow> []
      | Some device \<Rightarrow> (case bleDevice device of None \<Rightarrow> [] | Some h \<Rightarrow> h))"

definition device_emits :: "string \<Rightarrow> string \<Rightarrow> NobleBindings \<Rightarrow> NobleBindings" where
  "device_emits name deviceUuid st =
     emitter_emit name (Device_event deviceUuid) (device_handle deviceUuid st) st"

text \<open>\<open>connect\<close> called \<open>n\<close> times in a row; an exception ends the sequence.\<close>

fun connect_times :: "nat \<Rightarrow> string \<Rightarrow> NobleBindings \<Rightarrow> error + NobleBindings" where
  "connect_times 0 deviceUuid st = Inr st"
| "connect_times (Suc n) deviceUuid st =
     (case connect deviceUuid st of
        Inl e \<Rightarrow> Inl e
      | Inr st1 \<Rightarrow> connect_times n deviceUuid st1)"

subsection \<open>Characteristic cache, read, write and notify\<close>

text \<open>
  \<open>_discoverServiceCharacteristics\<close>, given the characteristic UUIDs of the service
  with the flags of each as the transport reports them: the discovered characteristics
  and the cache entry, which holds a characteristic object without listeners and two new
  queues under the UUID of each characteristic.
\<close>

definition characteristicMapping :: "(string \<times> string) list" where
  "characteristicMapping =
     [(''read'', ''read''), (''write-without-response'', ''writeWithoutResponse''),
      (''write'', ''write''), (''notify'', ''notify'')]"

definition discoverServiceCharacteristics ::
  "(string \<times> string list) list \<Rightarrow>
   (string \<times> string list) list \<times> (string \<times> characteristic_entry) list" where
  "discoverServiceCharacteristics found =
     (map (\<lambda>(u, flags).
             (packUUID u, map snd (filter (\<lambda>(k, v). k \<in> set flags) characteristicMapping)))
        found,
      fold (\<lambda>(u, flags) entry.
             AList.update u
               \<lparr>characteristic = [], readQueue = AsyncQueue_new, writeQueue = AsyncQueue_new\<rparr>
               entry)
        found [])"

text \<open>
  The innermost callback of \<open>discoverCharacteristics\<close>, for a registered device. The
  assignment to \<open>device.cachedCharacteristics[...]\<close> throws when
  \<open>device.cachedCharacteristics\<close> is \<open>undefined\<close>; the \<open>catch\<close> callback logs that.
\<close>

definition characteristics_discovered ::
  "string \<Rightarrow> string \<Rightarrow> (string \<times> string list) list \<Rightarrow> NobleBindings \<Rightarrow> NobleBindings" where
  "characteristics_discovered deviceUuid serviceUuid found st =
     (case map_of (device_by_uuid st) deviceUuid of
        None \<Rightarrow> st
      | Some device \<Rightarrow>
          (case cachedCharacteristics device of
             None \<Rightarrow> st
           | Some cache \<Rightarrow>
               let (discovered, entry) = discoverServiceCharacteristics found
               in emit (CharacteristicsDiscover deviceUuid serviceUuid discovered)
                    (st\<lparr>device_by_uuid :=
                          AList.update deviceUuid
                            (device\<lparr>cachedCharacteristics :=
                               Some (AList.update (unpackUUID serviceUuid) entry cache)\<rparr>)
                            (device_by_uuid st)\<rparr>)))"

text \<open>
  \<open>_getCharacteristic\<close>. The result \<open>None\<close> stands for \<open>null\<close> and for \<open>undefined\<close>,
  which the callers do not tell apart (\<open>characteristic == null\<close>). The second test of
  the source compares the result of \<open>typeof\<close>, a string, with \<open>undefined\<close>; it is never
  true, so the function goes on to read a property of
  \<open>device.cachedCharacteristics[unpackUUID(serviceUuid)]\<close>, which throws when that is
  \<open>undefined\<close>. Reading \<open>device.cachedCharacteristics[...]\<close> itself throws when
  \<open>cachedCharacteristics\<close> is \<open>undefined\<close>.
\<close>

definition getCharacteristic ::
  "string \<Rightarrow> string \<Rightarrow> string \<Rightarrow> NobleBindings \<Rightarrow> error + characteristic_entry option" where
  "getCharacteristic deviceUuid serviceUuid characteristicUuid st =
     (case map_of (device_by_uuid st) deviceUuid of
        None \<Rightarrow> Inr None
      | Some device \<Rightarrow>
          (case cachedCharacteristics device of
             None \<Rightarrow> Inl TypeError
           | Some cache \<Rightarrow>
               (case map_of cache (unpackUUID serviceUuid) of
                  None \<Rightarrow> Inl TypeError
                | Some entry \<Rightarrow> Inr (map_of entry (unpackUUID characteristicUuid)))))"

text \<open>
  The cache entry returned by \<open>_getCharacteristic\<close> is an object shared with the cache;
  \<open>set_characteristic\<close> writes a changed entry back to where it was read.
\<close>

definition set_characteristic ::
  "string \<Rightarrow> string \<Rightarrow> string \<Rightarrow> characteristic_entry \<Rightarrow> NobleBindings \<Rightarrow> NobleBindings" where
  "set_characteristic deviceUuid serviceUuid characteristicUuid ch st =
     st\<lparr>device_by_uuid :=
          AList.map_entry deviceUuid
            (\<lambda>device. device\<lparr>cachedCharacteristics :=
               map_option
                 (AList.map_entry (unpackUUID serviceUuid)
                    (AList.update (unpackUUID characteristicUuid) ch))
                 (cachedCharacteristics device)\<rparr>)
            (device_by_uuid st)\<rparr>"

text \<open>
  \<open>read\<close> and \<open>write\<close> (here \<open>write_data\<close>) up to their return. The enqueued action is an \<open>async\<close>
  function whose body is a \<open>try\<close> with a \<open>catch\<close> that logs: it never throws and its
  promise always fulfils.
\<close>

definition read :: "string \<Rightarrow> string \<Rightarrow> string \<Rightarrow> NobleBindings \<Rightarrow> error + NobleBindings" where
  "read deviceUuid serviceUuid characteristicUuid st =
     (case getCharacteristic deviceUuid serviceUuid characteristicUuid st of
        Inl e \<Rightarrow> Inl e
      | Inr None \<Rightarrow> Inr st
      | Inr (Some ch) \<Rightarrow>
          Inr (set_characteristic deviceUuid serviceUuid characteristicUuid
                 (ch\<lparr>readQueue := enqueue (Action [] None) (readQueue ch)\<rparr>) st))"

definition write_data ::
  "string \<Rightarrow> string \<Rightarrow> string \<Rightarrow> nat list \<Rightarrow> bool \<Rightarrow> NobleBindings \<Rightarrow> error + NobleBindings" where
  "write_data deviceUuid serviceUuid characteristicUuid data withoutResponse st =
     (case getCharacteristic deviceUuid serviceUuid characteristicUuid st of
        Inl e \<Rightarrow> Inl e
      | Inr None \<Rightarrow> Inr st
      | Inr (Some ch) \<Rightarrow>
          Inr (set_characteristic deviceUuid serviceUuid characteristicUuid
                 (ch\<lparr>writeQueue := enqueue (Action [] None) (writeQueue ch)\<rparr>) st))"

text \<open>
  The body of the action of \<open>read\<close> and of \<open>write\<close>, once the transport has answered
  \<open>readValue\<close> or \<open>writeValue\<close>: the event is emitted on success only.
\<close>

definition read_answered ::
  "string \<Rightarrow> string \<Rightarrow> string \<Rightarrow> error + nat list \<Rightarrow> NobleBindings \<Rightarrow> NobleBindings" where
  "read_answered deviceUuid serviceUuid characteristicUuid answer st =
     (case answer of
        Inl e \<Rightarrow> st
      | Inr data \<Rightarrow> emit (Read deviceUuid serviceUuid characteristicUuid data False) st)"

definition write_answered ::
  "string \<Rightarrow> string \<Rightarrow> string \<Rightarrow> error + unit \<Rightarrow> NobleBindings \<Rightarrow> NobleBindings" where
  "write_answered deviceUuid serviceUuid characteristicUuid answer st =
     (case answer of
        Inl e \<Rightarrow> st
      | Inr _ \<Rightarrow> emit (Write deviceUuid serviceUuid characteristicUuid) st)"

text \<open>
  \<open>notify\<close> up to its return, and the callback for the answer of
  \<open>startNotifications\<close> or \<open>stopNotifications\<close>.
\<close>

definition notify ::
  "string \<Rightarrow> string \<Rightarrow> string \<Rightarrow> bool \<Rightarrow> NobleBindings \<Rightarrow> error + NobleBindings" where
  "notify deviceUuid serviceUuid characteristicUuid enable st =
     (case getCharacteristic deviceUuid serviceUuid characteristicUuid st of
        Inl e \<Rightarrow> Inl e
      | Inr None \<Rightarrow> Inr st
      | Inr (Some ch) \<Rightarrow>
          Inr (set_characteristic deviceUuid serviceUuid characteristicUuid
                 (ch\<lparr>characteristic :=
                    (if enable
                     then emitter_on ''valuechanged''
                            (OnNotify deviceUuid serviceUuid characteristicUuid)
                            (characteristic ch)
                     else removeAllListeners ''valuechanged'' (characteristic ch))\<rparr>) st))"

definition notify_answered ::
  "string \<Rightarrow> string \<Rightarrow> string \<Rightarrow> bool \<Rightarrow> error + unit \<Rightarrow> NobleBindings \<Rightarrow> NobleBindings" where
  "notify_answered deviceUuid serviceUuid characteristicUuid enable answer st =
     (case answer of
        Inl e \<Rightarrow> st
      | Inr _ \<Rightarrow> emit (Notify deviceUuid serviceUuid characteristicUuid enable) st)"

text \<open>
  The characteristic object of a cached characteristic, and that object emitting
  \<open>valuechanged\<close> with a new value.
\<close>

definition characteristic_handle ::
  "string \<Rightarrow> string \<Rightarrow> string \<Rightarrow> NobleBindings \<Rightarrow> emitter" where
  "characteristic_handle deviceUuid serviceUuid characteristicUuid st =
     (case getCharacteristic deviceUuid serviceUuid characteristicUuid st of
        Inr (Some ch) \<Rightarrow> characteristic ch
      | _ \<Rightarrow> [])"

definition characteristic_emits ::
  "string \<Rightarrow> string \<Rightarrow> string \<Rightarrow> nat list \<Rightarrow> NobleBindings \<Rightarrow> NobleBindings" where
  "characteristic_emits deviceUuid serviceUuid characteristicUuid v st =
     emitter_emit ''valuechanged'' (Value v)
       (characteristic_handle deviceUuid serviceUuid characteristicUuid st) st"

text \<open>\<open>notify(..., true)\<close> called \<open>n\<close> times in a row; an exception ends the sequence.\<close>

fun notify_times ::
  "nat \<Rightarrow> string \<Rightarrow> string \<Rightarrow> string \<Rightarrow> NobleBindings \<Rightarrow> error + NobleBindings" where
  "notify_times 0 d s c st = Inr st"
| "notify_times (Suc n) d s c st =
     (case notify d s c True st of
        Inl e \<Rightarrow> Inl e
      | Inr st1 \<Rightarrow> notify_times n d s c st1)"

text \<open>
  What a listener of a characteristic object forwards for a new value \<open>v\<close>.
\<close>

fun forwarded :: "nat list \<Rightarrow> listener \<Rightarrow> event list" where
  "forwarded v (OnNotify d s c) = [Read d s c v True]"
| "forwarded v l = []"

subsection \<open>Example states\<close>

text \<open>
  A session with one device. In \<open>scanned_session\<close> the adapter is ready, scanning has
  been started without a filter and a tick has fetched the device \<open>dev_A\<close>. In
  \<open>connected_session\<close> the client has called \<open>connect\<close> once and the device object has
  emitted \<open>connect\<close>. In \<open>discovered_session\<close> the characteristics of one service have
  been discovered as well.
\<close>

definition example_answers :: device_answers where
  "example_answers =
     \<lparr>ans_device = ''dev_A'', ans_address = Inr ''AA:BB'', ans_addressType = Inr ''public'',
      ans_paired = Inr False, ans_name = Inr ''hub'', ans_serviceData = Inr [],
      ans_serviceUUIDs = Inr [''00001623-1212-efde-1623-785feabcd123'']\<rparr>"

definition example_serializeUUID :: "string \<Rightarrow> string" where
  "example_serializeUUID a = ''dev_'' @ a"

definition scanned_session :: NobleBindings where
  "scanned_session =
     tick_finally
       (fetches_completed example_serializeUUID [(''A'', Inr example_answers)]
          (timeout_fires 0
             (startScanning_started (Inr ())
                (snd (startScanning_discovering [] (Inr False)
                        (init (Inr ()) NobleBindings_new))))))"

definition connected_session :: NobleBindings where
  "connected_session =
     (case connect ''dev_A'' scanned_session of
        Inl e \<Rightarrow> scanned_session
      | Inr st \<Rightarrow> device_emits ''connect'' ''dev_A'' st)"

definition discovered_session :: NobleBindings where
  "discovered_session =
     characteristics_discovered ''dev_A'' ''000016231212efde1623785feabcd123''
       [(''00001624-1212-efde-1623-785feabcd123'', [''read'', ''write'', ''notify''])]
       connected_session"

text \<open>
  The client calls \<open>connect\<close> once or twice on the scanned device, and the client
  enables notifications once or twice on the discovered characteristic.
\<close>

definition connected_once :: NobleBindings where
  "connected_once =
     (case connect_times 1 ''dev_A'' scanned_session of
        Inl e \<Rightarrow> scanned_session
      | Inr st \<Rightarrow> st)"

definition notified_once :: NobleBindings where
  "notified_once =
     (case notify_times 1 ''dev_A'' ''000016231212efde1623785feabcd123''
             ''000016241212efde1623785feabcd123'' discovered_session of
        Inl e \<Rightarrow> discovered_session
      | Inr st \<Rightarrow> st)"

definition connected_twice :: NobleBindings where
  "connected_twice =
     (case connect_times 2 ''dev_A'' scanned_session of
        Inl e \<Rightarrow> scanned_session
      | Inr st \<Rightarrow> st)"

definition notified_twice :: NobleBindings where
  "notified_twice =
     (case notify_times 2 ''dev_A'' ''000016231212efde1623785feabcd123''
             ''000016241212efde1623785feabcd123'' discovered_session of
        Inl e \<Rightarrow> discovered_session
      | Inr st \<Rightarrow> st)"

text \<open>
  A tick with a filter: the transport lists the addresses A, B and C, and only B
  advertises the wanted service.
\<close>

definition answers_for :: "string \<Rightarrow> string list \<Rightarrow> device_answers" where
  "answers_for a services =
     \<lparr>ans_device = ''dev_'' @ a, ans_address = Inr a, ans_addressType = Inr ''public'',
      ans_paired = Inr False, ans_name = Inl (Rejected_by ''no name''),
      ans_serviceData = Inl (Rejected_by ''no service data''),
      ans_serviceUUIDs = Inr services\<rparr>"

definition filtering_session :: NobleBindings where
  "filtering_session =
     startScanning_started (Inr ())
       (snd (startScanning_discovering [''000016231212efde1623785feabcd123''] (Inr False)
          (init (Inr ()) NobleBindings_new)))"

definition abc_completions :: "(string \<times> (error + device_answers)) list" where
  "abc_completions =
     [(''A'', Inr (answers_for ''A'' [''0000180f-0000-1000-8000-00805f9b34fb''])),
      (''B'', Inr (answers_for ''B'' [''0000180a-0000-1000-8000-00805f9b34fb'',
                                     ''00001623-1212-EFDE-1623-785FEABCD123''])),
      (''C'', Inr (answers_for ''C'' []))]"



section \<open>Properties of the UUID codec\<close>

lemma toLowerCase_char_eval:
  "toLowerCase_char c =
     (
      if c = CHR ''A'' then CHR ''a'' else
      if c = CHR ''B'' then CHR ''b'' else
      if c = CHR ''C'' then CHR ''c'' else
      if c = CHR ''D'' then CHR ''d'' else
      if c = CHR ''E'' then CHR ''e'' else
      if c = CHR ''F'' then CHR ''f'' else
      if c = CHR ''G'' then CHR ''g'' else
      if c = CHR ''H'' then CHR ''h'' else
      if c = CHR ''I'' then CHR ''i'' else
      if c = CHR ''J'' then CHR ''j'' else
      if c = CHR ''K'' then CHR ''k'' else
      if c = CHR ''L'' then CHR ''l'' else
      if c = CHR ''M'' then CHR ''m'' else
      if c = CHR ''N'' then CHR ''n'' else
      if c = CHR ''O'' then CHR ''o'' else
      if c = CHR ''P'' then CHR ''p'' else
      if c = CHR ''Q'' then CHR ''q'' else
      if c = CHR ''R'' then CHR ''r'' else
      if c = CHR ''S'' then CHR ''s'' else
      if c = CHR ''T'' then CHR ''t'' else
      if c = CHR ''U'' then CHR ''u'' else
      if c = CHR ''V'' then CHR ''v'' else
      if c = CHR ''W'' then CHR ''w'' else
      if c = CHR ''X'' then CHR ''x'' else
      if c = CHR ''Y'' then CHR ''y'' else
      if c = CHR ''Z'' then CHR ''z'' else
      if c = CHR 0xC0 then CHR 0xE0 else
      if c = CHR 0xC1 then CHR 0xE1 else
      if c = CHR 0xC2 then CHR 0xE2 else
      if c = CHR 0xC3 then CHR 0xE3 else
      if c = CHR 0xC4 then CHR 0xE4 else
      if c = CHR 0xC5 then CHR 0xE5 else
      if c = CHR 0xC6 then CHR 0xE6 else
      if c = CHR 0xC7 then CHR 0xE7 else
      if c = CHR 0xC8 then CHR 0xE8 else
      if c = CHR 0xC9 then CHR 0xE9 else
      if c = CHR 0xCA then CHR 0xEA else
      if c = CHR 0xCB then CHR 0xEB else
      if c = CHR 0xCC then CHR 0xEC else
      if c = CHR 0xCD then CHR 0xED else
      if c = CHR 0xCE then CHR 0xEE else
      if c = CHR 0xCF then CHR 0xEF else
      if c = CHR 0xD0 then CHR 0xF0 else
      if c = CHR 0xD1 then CHR 0xF1 else
      if c = CHR 0xD2 then CHR 0xF2 else
      if c = CHR 0xD3 then CHR 0xF3 else
      if c = CHR 0xD4 then CHR 0xF4 else
      if c = CHR 0xD5 then CHR 0xF5 else
      if c = CHR 0xD6 then CHR 0xF6 else
      if c = CHR 0xD8 then CHR 0xF8 else
      if c = CHR 0xD9 then CHR 0xF9 else
      if c = CHR 0xDA then CHR 0xFA else
      if c = CHR 0xDB then CHR 0xFB else
      if c = CHR 0xDC then CHR 0xFC else
      if c = CHR 0xDD then CHR 0xFD else
      if c = CHR 0xDE then CHR 0xFE else
      c)"
  by (simp add: toLowerCase_char_def upper_case_units_def lower_case_units_def)

lemma replace_hyphens_unfold: "replace_hyphens s = filter (\<lambda>c. c \<noteq> CHR ''-'') s"
  by (simp add: replace_hyphens_def remove_all_def)

lemma packUUID_unfold: "packUUID x = toLowerCase (replace_hyphens x)"
  by (simp add: packUUID_def packUUID_of_def replace_hyphens_def)

lemma unpackUUID_unfold:
  "unpackUUID x =
     (if length x = 32
      then toLowerCase (join ''-''
             [slice 0 8 x, slice 8 12 x, slice 12 16 x, slice 16 20 x,
              slice 20 32 x])
      else toLowerCase x)"
  by (simp add: unpackUUID_def unpackUUID_of_def)

lemma toLowerCase_char_hex: "is_hex_digit c \<Longrightarrow> toLowerCase_char c = hex_lower c"
  unfolding is_hex_digit_def
  apply simp
  apply (elim disjE)
  apply (simp_all add: toLowerCase_char_eval)
  done

lemma toLowerCase_hex: "list_all is_hex_digit s \<Longrightarrow> toLowerCase s = map hex_lower s"
  by (induction s) (simp_all add: toLowerCase_def toLowerCase_char_hex del: hex_lower.simps)

lemma toLowerCase_append: "toLowerCase (a @ b) = toLowerCase a @ toLowerCase b"
  by (simp add: toLowerCase_def)

lemma toLowerCase_Cons_hyphen: "toLowerCase (CHR ''-'' # s) = CHR ''-'' # toLowerCase s"
  by (simp add: toLowerCase_def toLowerCase_char_eval)

lemma toLowerCase_take: "toLowerCase (take n s) = take n (toLowerCase s)"
  by (simp add: toLowerCase_def take_map)

lemma toLowerCase_drop: "toLowerCase (drop n s) = drop n (toLowerCase s)"
  by (simp add: toLowerCase_def drop_map)

lemma unpackUUID_32:
  "length u = 32 \<Longrightarrow>
   unpackUUID u = toLowerCase (take 8 u) @ ''-'' @ toLowerCase (take 4 (drop 8 u)) @ ''-'' @
     toLowerCase (take 4 (drop 12 u)) @ ''-'' @ toLowerCase (take 4 (drop 16 u)) @ ''-'' @
     toLowerCase (drop 20 u)"
  by (simp add: unpackUUID_unfold slice_def toLowerCase_append toLowerCase_Cons_hyphen)

lemma is_hex_digit_not_hyphen: "is_hex_digit c \<Longrightarrow> c \<noteq> CHR ''-''"
  by (auto simp: is_hex_digit_def)

lemma filter_all_hex:
  "list_all is_hex_digit s \<Longrightarrow> filter is_hex_digit s = s \<and> replace_hyphens s = s"
  by (induction s) (auto simp: replace_hyphens_unfold is_hex_digit_not_hyphen)

lemma packUUID_hex32:
  assumes "length x = 32" "list_all is_hex_digit x"
  shows "packUUID x = map hex_lower x"
  using assms by (simp add: packUUID_unfold filter_all_hex toLowerCase_hex del: hex_lower.simps)

lemma not_hex_hyphen: "\<not> is_hex_digit (CHR ''-'')"
  by (simp add: is_hex_digit_def)

lemma drop_step: "i < length x \<Longrightarrow> drop i x = x ! i # drop (Suc i) x"
  by (simp add: Cons_nth_drop_Suc)

lemma take_step: "take n (drop i x) @ drop (n + i) x = drop i x"
  using append_take_drop_id [of n "drop i x"] by simp

lemma split36:
  assumes "length x = 36" "x ! 8 = CHR ''-''" "x ! 13 = CHR ''-''" "x ! 18 = CHR ''-''"
    "x ! 23 = CHR ''-''"
  shows "x = take 8 x @ ''-'' @ take 4 (drop 9 x) @ ''-'' @ take 4 (drop 14 x) @ ''-'' @
             take 4 (drop 19 x) @ ''-'' @ drop 24 x"
proof -
  have d8: "drop 8 x = CHR ''-'' # drop 9 x"
    using drop_step [of 8 x] assms by simp
  have d13: "drop 13 x = CHR ''-'' # drop 14 x"
    using drop_step [of 13 x] assms by simp
  have d18: "drop 18 x = CHR ''-'' # drop 19 x"
    using drop_step [of 18 x] assms by simp
  have d23: "drop 23 x = CHR ''-'' # drop 24 x"
    using drop_step [of 23 x] assms by simp
  have t9: "drop 9 x = take 4 (drop 9 x) @ drop 13 x"
    using take_step [of 4 9 x] by simp
  have t14: "drop 14 x = take 4 (drop 14 x) @ drop 18 x"
    using take_step [of 4 14 x] by simp
  have t19: "drop 19 x = take 4 (drop 19 x) @ drop 23 x"
    using take_step [of 4 19 x] by simp
  have "x = take 8 x @ drop 8 x" by simp
  also have "\<dots> = take 8 x @ ''-'' @ drop 9 x" by (simp add: d8)
  also have "\<dots> = take 8 x @ ''-'' @ take 4 (drop 9 x) @ ''-'' @ drop 14 x"
    using t9 d13 by simp
  also have "\<dots> = take 8 x @ ''-'' @ take 4 (drop 9 x) @ ''-'' @ take 4 (drop 14 x) @ ''-'' @
      drop 19 x"
    using t14 d18 by simp
  also have "\<dots> = take 8 x @ ''-'' @ take 4 (drop 9 x) @ ''-'' @ take 4 (drop 14 x) @ ''-'' @
      take 4 (drop 19 x) @ ''-'' @ drop 24 x"
    using t19 d23 by simp
  finally show ?thesis .
qed

lemma replace_hyphens_groups:
  assumes "list_all is_hex_digit (a @ b @ c @ d @ e)"
  shows "replace_hyphens (a @ ''-'' @ b @ ''-'' @ c @ ''-'' @ d @ ''-'' @ e) = a @ b @ c @ d @ e"
    and "filter is_hex_digit (a @ ''-'' @ b @ ''-'' @ c @ ''-'' @ d @ ''-'' @ e) = a @ b @ c @ d @ e"
  using assms filter_all_hex [of a] filter_all_hex [of b] filter_all_hex [of c]
    filter_all_hex [of d] filter_all_hex [of e]
  by (simp_all add: replace_hyphens_unfold not_hex_hyphen)

lemma toLowerCase_char_idem: "toLowerCase_char (toLowerCase_char c) = toLowerCase_char c"
  by (simp add: toLowerCase_char_eval)

lemma toLowerCase_idem: "toLowerCase (toLowerCase s) = toLowerCase s"
  by (simp add: toLowerCase_def toLowerCase_char_idem)

lemma unpack_of_lower:
  assumes "length h = 32"
  shows "unpackUUID (toLowerCase h) =
    (let d = toLowerCase h
     in take 8 d @ ''-'' @ take 4 (drop 8 d) @ ''-'' @ take 4 (drop 12 d) @ ''-'' @
        take 4 (drop 16 d) @ ''-'' @ take 12 (drop 20 d))"
proof -
  have len: "length (toLowerCase h) = 32"
    using assms by (simp add: toLowerCase_def)
  show ?thesis
    unfolding unpackUUID_32 [OF len] Let_def
    by (simp add: toLowerCase_take toLowerCase_drop toLowerCase_idem len)
qed

lemma codec_on_digits:
  assumes "length h = 32" "list_all is_hex_digit h"
    and "replace_hyphens x = h" "filter is_hex_digit x = h"
  shows "unpackUUID (packUUID x) = canonical_uuid x"
proof -
  have "packUUID x = toLowerCase h"
    using assms(3) by (simp add: packUUID_unfold)
  moreover have "map hex_lower (filter is_hex_digit x) = toLowerCase h"
    using assms(2,4) by (simp add: toLowerCase_hex del: hex_lower.simps)
  ultimately show ?thesis
    using unpack_of_lower [OF assms(1)] by (simp add: canonical_uuid_def Let_def del: hex_lower.simps)
qed

text \<open>
  Claim C6. For every valid 128-bit UUID string \<open>x\<close>, in any casing and with or without
  the hyphen separators, \<open>unpackUUID (packUUID x)\<close> is the canonical lower-case
  hyphenated (8-4-4-4-12) form of \<open>x\<close>.
\<close>

theorem unpack_pack_canonical:
  assumes "valid_uuid128 x"
  shows "unpackUUID (packUUID x) = canonical_uuid x"
proof -
  consider (plain) "length x = 32" "list_all is_hex_digit x"
    | (hyphenated) "length x = 36" "x ! 8 = CHR ''-''" "x ! 13 = CHR ''-''" "x ! 18 = CHR ''-''"
        "x ! 23 = CHR ''-''"
        "list_all is_hex_digit
           (take 8 x @ take 4 (drop 9 x) @ take 4 (drop 14 x) @ take 4 (drop 19 x) @ drop 24 x)"
    using assms unfolding valid_uuid128_def by blast
  then show ?thesis
  proof cases
    case plain
    then show ?thesis
      using codec_on_digits [of x x] filter_all_hex [of x] by simp
  next
    case hyphenated
    define h where "h = take 8 x @ take 4 (drop 9 x) @ take 4 (drop 14 x) @ take 4 (drop 19 x) @ drop 24 x"
    have len: "length h = 32"
      using hyphenated(1) by (simp add: h_def)
    have hex: "list_all is_hex_digit h"
      using hyphenated(6) by (simp add: h_def)
    have x: "x = take 8 x @ ''-'' @ take 4 (drop 9 x) @ ''-'' @ take 4 (drop 14 x) @ ''-'' @
             take 4 (drop 19 x) @ ''-'' @ drop 24 x"
      using split36 [OF hyphenated(1-5)] .
    have "replace_hyphens x = h" "filter is_hex_digit x = h"
      using replace_hyphens_groups [OF hyphenated(6)] x unfolding h_def by metis+
    then show ?thesis
      using codec_on_digits [OF len hex] by blast
  qed
qed

theorem unpack_pack_canonical_witness:
  "valid_uuid128 ''00001623-1212-EFDE-1623-785FEABCD123'' \<and>
   unpackUUID (packUUID ''00001623-1212-EFDE-1623-785FEABCD123'')
     = ''00001623-1212-efde-1623-785feabcd123'' \<and>
   canonical_uuid ''00001623-1212-EFDE-1623-785FEABCD123''
     = ''00001623-1212-efde-1623-785feabcd123''"
proof -
  have v: "valid_uuid128 ''00001623-1212-EFDE-1623-785FEABCD123''"
    by (simp add: valid_uuid128_def is_hex_digit_def)
  have c: "canonical_uuid ''00001623-1212-EFDE-1623-785FEABCD123''
     = ''00001623-1212-efde-1623-785feabcd123''"
    by (simp add: canonical_uuid_def is_hex_digit_def)
  show ?thesis
    using unpack_pack_canonical [OF v] v c by simp
qed

lemma join_groups:
  "join [h] [a, b, c, d, e] = a @ [h] @ b @ [h] @ c @ [h] @ d @ [h] @ e"
  by simp

text \<open>
  Claim C10. \<open>unpackUUID\<close> looks at the length of its argument only, for strings of
  any code units and whatever \<open>toLowerCase\<close> does to them. A string of length 32,
  hexadecimal or not, is cut into groups of 8, 4, 4, 4 and 12 code units that are joined
  by hyphens, and the result is lower-cased; a string of any other length is returned
  lower-cased and otherwise unchanged. The function \<open>unpackUUID\<close> on \<open>string\<close> is the
  instance for strings of code units below U+0100.
\<close>

theorem unpackUUID_by_length:
  "(length u = 32 \<longrightarrow>
      unpackUUID_of lower hyphen u =
        lower (take 8 u @ [hyphen] @ take 4 (drop 8 u) @ [hyphen] @ take 4 (drop 12 u) @
               [hyphen] @ take 4 (drop 16 u) @ [hyphen] @ drop 20 u)) \<and>
   (length u \<noteq> 32 \<longrightarrow> unpackUUID_of lower hyphen u = lower u) \<and>
   unpackUUID s = unpackUUID_of toLowerCase (CHR ''-'') s"
proof -
  have "unpackUUID_of lower hyphen u =
        lower (take 8 u @ [hyphen] @ take 4 (drop 8 u) @ [hyphen] @ take 4 (drop 12 u) @
               [hyphen] @ take 4 (drop 16 u) @ [hyphen] @ drop 20 u)"
    if len: "length u = 32"
  proof -
    have "slice 20 32 u = drop 20 u"
      using len by (simp add: slice_def)
    then show ?thesis
      using len unfolding unpackUUID_of_def join_groups by (simp add: slice_def)
  qed
  moreover have "unpackUUID_of lower hyphen u = lower u" if "length u \<noteq> 32"
    using that by (simp add: unpackUUID_of_def)
  ultimately show ?thesis
    by (simp add: unpackUUID_def)
qed

theorem unpackUUID_by_length_witness:
  "unpackUUID ''NOT-HEX!ZZZZzzzzQQQQ_0123456789~'' = ''not-hex!-zzzz-zzzz-qqqq-_0123456789~'' \<and>
   unpackUUID ''00001623-1212-EFDE-1623-785FEABCD123'' = ''00001623-1212-efde-1623-785feabcd123'' \<and>
   unpackUUID [CHR 0xC9, CHR ''F''] = [CHR 0xE9, CHR ''f''] \<and>
   unpackUUID_of rev (45 :: nat) [65, 66, 45, 67] = [67, 45, 66, 65]"
proof -
  have a: "length ''NOT-HEX!ZZZZzzzzQQQQ_0123456789~'' = 32"
    and b: "length ''00001623-1212-EFDE-1623-785FEABCD123'' \<noteq> 32"
    and c: "length [CHR 0xC9, CHR ''F''] \<noteq> 32"
    and d: "length [65, 66, 45, 67 :: nat] \<noteq> 32"
    by simp_all
  show ?thesis
    using a b c d
      unpackUUID_by_length [of "''NOT-HEX!ZZZZzzzzQQQQ_0123456789~''" toLowerCase "CHR ''-''"
        "''NOT-HEX!ZZZZzzzzQQQQ_0123456789~''"]
      unpackUUID_by_length [of "''00001623-1212-EFDE-1623-785FEABCD123''" toLowerCase "CHR ''-''"
        "''00001623-1212-EFDE-1623-785FEABCD123''"]
      unpackUUID_by_length [of "[CHR 0xC9, CHR ''F'']" toLowerCase "CHR ''-''"
        "[CHR 0xC9, CHR ''F'']"]
      unpackUUID_by_length [of "[65, 66, 45, 67 :: nat]" rev 45 "[]"]
    by (simp add: toLowerCase_def toLowerCase_char_eval)
qed

section \<open>Properties of the operation queue\<close>

lemma dequeue_pending: "pendingPromise q \<Longrightarrow> dequeue q = q"
  by (subst dequeue.simps) simp

lemma enqueue_pending: "pendingPromise q \<Longrightarrow> enqueue a q = enqueue_while_pending a q"
  by (simp add: enqueue_def enqueue_while_pending_def addTask_def dequeue_pending)

lemma fold_enqueue_while_pending:
  "fold enqueue_while_pending subs p =
     p\<lparr>tasks := tasks p @ zip [enqueued p..<enqueued p + length subs] subs,
       enqueued := enqueued p + length subs\<rparr>"
proof (induction subs arbitrary: p)
  case Nil
  show ?case by simp
next
  case (Cons a subs)
  have upt: "[enqueued p..<Suc (enqueued p + length subs)]
      = enqueued p # [Suc (enqueued p)..<Suc (enqueued p + length subs)]"
    by (simp add: upt_conv_Cons del: upt_Suc)
  have "fold enqueue_while_pending (a # subs) p
      = fold enqueue_while_pending subs (enqueue_while_pending a p)"
    by simp
  also have "\<dots> = (enqueue_while_pending a p)
      \<lparr>tasks := tasks (enqueue_while_pending a p) @
         zip [enqueued (enqueue_while_pending a p)..<
              enqueued (enqueue_while_pending a p) + length subs] subs,
       enqueued := enqueued (enqueue_while_pending a p) + length subs\<rparr>"
    by (rule Cons.IH)
  also have "\<dots> = p\<lparr>tasks := tasks p @ zip [enqueued p..<enqueued p + length (a # subs)] (a # subs),
       enqueued := enqueued p + length (a # subs)\<rparr>"
    using upt by (simp add: enqueue_while_pending_def addTask_def del: upt_Suc)
  finally show ?case .
qed

lemma map_fst_zip_upt: "map fst (zip [i..<i + length xs] xs) = [i..<i + length xs]"
  by (simp add: map_fst_zip)

lemma upt_append_upt: "i \<le> j \<Longrightarrow> [i..<j] @ [j..<j + n] = [i..<j + n]"
  using upt_add_eq_append [of i j n] by simp

lemma dequeue_idle_empty:
  "\<not> pendingPromise q \<Longrightarrow> tasks q = [] \<Longrightarrow> dequeue q = q"
  by (subst dequeue.simps) (simp add: getNextTask_def)

lemma dequeue_idle_Cons:
  "\<not> pendingPromise q \<Longrightarrow> tasks q = (k, a) # rest \<Longrightarrow>
   dequeue q =
     (let q2 = fold enqueue_while_pending (sync_enqueues a)
                 (q\<lparr>tasks := rest, pendingPromise := True, started := started q @ [k]\<rparr>)
      in case sync_throws a of
           None \<Rightarrow> q2\<lparr>awaiting := awaiting q2 @ [k]\<rparr>
         | Some e \<Rightarrow> dequeue (q2\<lparr>pendingPromise := False,
                                  futures := futures q2 @ [(k, Rejected e)]\<rparr>))"
  by (subst dequeue.simps) (simp add: getNextTask_def Let_def split: option.split)

lemma dequeue_inv:
  "\<not> pendingPromise q \<Longrightarrow> queue_ordered s s q \<Longrightarrow> awaiting q = [] \<Longrightarrow>
   \<exists>s' f'. queue_inv s' f' (dequeue q)"
proof (induction q arbitrary: s rule: dequeue.induct)
  case (1 q)
  show ?case
  proof (cases "tasks q")
    case Nil
    then have "queue_inv s s q"
      using "1.prems" by (simp add: queue_inv_def)
    moreover have "dequeue q = q"
      using Nil "1.prems"(1) by (simp add: dequeue_idle_empty)
    ultimately show ?thesis by auto
  next
    case (Cons t rest)
    obtain k a where t: "t = (k, a)" by (cases t)
    have tq: "tasks q = (k, a) # rest" using Cons t by simp
    have "[s..<enqueued q] = k # map fst rest"
      using "1.prems"(2) tq by (simp add: queue_ordered_def)
    then have k: "k = s" and lt: "s < enqueued q" and rest: "map fst rest = [Suc s..<enqueued q]"
      by (auto simp: upt_eq_Cons_conv)
    define n where "n = length (sync_enqueues a)"
    define q1 where "q1 = q\<lparr>tasks := rest, pendingPromise := True, started := started q @ [k]\<rparr>"
    define q2 where "q2 = fold enqueue_while_pending (sync_enqueues a) q1"
    have q2: "q2 = q1\<lparr>tasks := rest @ zip [enqueued q..<enqueued q + n] (sync_enqueues a),
       enqueued := enqueued q + n\<rparr>"
      unfolding q2_def fold_enqueue_while_pending by (simp add: q1_def n_def)
    have "map fst (tasks q2) = [Suc s..<enqueued q] @ [enqueued q..<enqueued q + n]"
      by (simp add: q2 rest n_def map_fst_zip_upt)
    also have "\<dots> = [Suc s..<enqueued q + n]"
      using lt by (simp add: upt_append_upt)
    finally have t2: "map fst (tasks q2) = [Suc s..<enqueued q2]"
      by (simp add: q2)
    have ord2: "queue_ordered (Suc s) s q2"
      using "1.prems"(2) lt t2 by (simp add: queue_ordered_def) (simp add: q2 q1_def k)
    show ?thesis
    proof (cases "sync_throws a")
      case None
      have d: "dequeue q = q2\<lparr>awaiting := awaiting q2 @ [k]\<rparr>"
        using dequeue_idle_Cons [OF "1.prems"(1) tq] None by (simp add: q2_def q1_def Let_def)
      have "awaiting q2 = []" "pendingPromise q2"
        using "1.prems"(3) by (simp_all add: q2 q1_def)
      then have "queue_inv (Suc s) s (dequeue q)"
        using ord2 by (simp add: d queue_inv_def queue_ordered_def k)
      then show ?thesis by blast
    next
      case (Some e)
      define q3 where "q3 = q2\<lparr>pendingPromise := False, futures := futures q2 @ [(k, Rejected e)]\<rparr>"
      have d: "dequeue q = dequeue q3"
        using dequeue_idle_Cons [OF "1.prems"(1) tq] Some by (simp add: q3_def q2_def q1_def Let_def)
      have ord3: "queue_ordered (Suc s) (Suc s) q3"
        using ord2 by (simp add: queue_ordered_def q3_def k)
      have aw3: "awaiting q3 = []" and np3: "\<not> pendingPromise q3"
        using "1.prems"(3) by (simp_all add: q3_def q2 q1_def)
      have gn: "getNextTask q = (Some (k, a), q\<lparr>tasks := rest\<rparr>)"
        using tq by (simp add: getNextTask_def)
      have "\<exists>s' f'. queue_inv s' f' (dequeue q3)"
        using "1.IH" [OF "1.prems"(1) gn [symmetric] refl refl refl refl Some, of "Suc s"]
          ord3 aw3 np3
        by (simp add: q3_def q2_def q1_def)
      then show ?thesis by (simp add: d)
    qed
  qed
qed


lemma queue_inv_idle:
  assumes "queue_inv s f q" "\<not> pendingPromise q"
  shows "f = s" and "tasks q = []" and "awaiting q = []" and "enqueued q = s"
proof -
  show fs: "f = s" and t: "tasks q = []"
    using assms by (auto simp: queue_inv_def)
  show "awaiting q = []"
    using assms fs by (simp add: queue_inv_def)
  have "[s..<enqueued q] = []" "s \<le> enqueued q"
    using assms t by (simp_all add: queue_inv_def queue_ordered_def)
  then show "enqueued q = s" by auto
qed

lemma queue_inv_busy:
  assumes "queue_inv s f q" "pendingPromise q"
  shows "s = Suc f" and "awaiting q = [f]"
proof -
  show sf: "s = Suc f"
    using assms by (auto simp: queue_inv_def)
  show "awaiting q = [f]"
    using assms sf by (simp add: queue_inv_def)
qed

lemma enqueue_inv:
  assumes "queue_inv s f q"
  shows "\<exists>s' f'. queue_inv s' f' (enqueue a q)"
proof (cases "pendingPromise q")
  case True
  have "map fst (tasks q) @ [enqueued q] = [s..<Suc (enqueued q)]"
    using assms by (simp add: queue_inv_def queue_ordered_def)
  then have "queue_inv s f (enqueue a q)"
    using assms True
    by (simp add: enqueue_pending enqueue_while_pending_def addTask_def queue_inv_def
        queue_ordered_def)
  then show ?thesis by blast
next
  case False
  note idle = queue_inv_idle [OF assms False]
  define q' where "q' = addTask (enqueued q, a) (q\<lparr>enqueued := Suc (enqueued q)\<rparr>)"
  have "queue_ordered s s q'"
    using assms idle by (simp add: q'_def addTask_def queue_inv_def queue_ordered_def)
  moreover have "\<not> pendingPromise q'" "awaiting q' = []"
    using False idle by (simp_all add: q'_def addTask_def)
  ultimately have "\<exists>s' f'. queue_inv s' f' (dequeue q')"
    using dequeue_inv [of q' s] by blast
  then show ?thesis
    by (simp add: enqueue_def q'_def)
qed

lemma settle_inv:
  assumes "queue_inv s f q"
  shows "\<exists>s' f'. queue_inv s' f' (settle k out q)"
proof (cases "k \<in> set (awaiting q)")
  case False
  then show ?thesis using assms by (auto simp: settle_def)
next
  case True
  then have p: "pendingPromise q"
    using assms by (auto simp: queue_inv_def)
  note busy = queue_inv_busy [OF assms p]
  have k: "k = f" using True busy by simp
  define q' where "q' = q\<lparr>awaiting := removeAll k (awaiting q), pendingPromise := False,
                      futures := futures q @ [(k, out)]\<rparr>"
  have "queue_ordered s s q'"
    using assms busy by (simp add: q'_def queue_inv_def queue_ordered_def k)
  moreover have "\<not> pendingPromise q'" "awaiting q' = []"
    using busy by (simp_all add: q'_def k)
  ultimately have "\<exists>s' f'. queue_inv s' f' (dequeue q')"
    using dequeue_inv [of q' s] by blast
  then show ?thesis
    using True by (simp add: settle_def q'_def)
qed

lemma queue_step_inv:
  "queue_inv s f q \<Longrightarrow> \<exists>s' f'. queue_inv s' f' (queue_step q ev)"
  by (cases ev) (simp_all add: enqueue_inv settle_inv)

lemma queue_inv_new: "queue_inv 0 0 AsyncQueue_new"
  by (simp add: queue_inv_def queue_ordered_def AsyncQueue_new_def)

lemma foldl_queue_step_inv:
  "queue_inv s f q \<Longrightarrow> \<exists>s' f'. queue_inv s' f' (foldl queue_step q evs)"
proof (induction evs arbitrary: s f q)
  case Nil
  then show ?case by auto
next
  case (Cons ev evs)
  obtain s' f' where "queue_inv s' f' (queue_step q ev)"
    using queue_step_inv [OF Cons.prems] by blast
  then show ?case
    using Cons.IH by simp
qed

lemma queue_run_inv: "\<exists>s f. queue_inv s f (queue_run evs)"
  unfolding queue_run_def by (rule foldl_queue_step_inv [OF queue_inv_new])

lemma fold_enqueue_while_pending_futures:
  "fold enqueue_while_pending subs (p\<lparr>futures := x\<rparr>)
     = (fold enqueue_while_pending subs p)\<lparr>futures := x\<rparr>"
  by (simp add: fold_enqueue_while_pending)

lemma dequeue_futures_prefix:
  "dequeue (q\<lparr>futures := fs @ futures q\<rparr>) = (dequeue q)\<lparr>futures := fs @ futures (dequeue q)\<rparr>"
proof (induction q arbitrary: fs rule: dequeue.induct)
  case (1 q)
  let ?q' = "q\<lparr>futures := fs @ futures q\<rparr>"
  show ?case
  proof (cases "pendingPromise q")
    case True
    then show ?thesis by (simp add: dequeue_pending)
  next
    case np: False
    show ?thesis
    proof (cases "tasks q")
      case Nil
      then show ?thesis using np by (simp add: dequeue_idle_empty)
    next
      case (Cons t rest)
      obtain k a where t: "t = (k, a)" by (cases t)
      have tq: "tasks q = (k, a) # rest" using Cons t by simp
      have gn: "getNextTask q = (Some (k, a), q\<lparr>tasks := rest\<rparr>)"
        using tq by (simp add: getNextTask_def)
      have tq': "tasks ?q' = (k, a) # rest" and np': "\<not> pendingPromise ?q'"
        using tq np by simp_all
      define q2 where "q2 = fold enqueue_while_pending (sync_enqueues a)
                 (q\<lparr>tasks := rest, pendingPromise := True, started := started q @ [k]\<rparr>)"
      have f2: "futures q2 = futures q"
        by (simp add: q2_def fold_enqueue_while_pending)
      have q2': "fold enqueue_while_pending (sync_enqueues a)
                 (?q'\<lparr>tasks := rest, pendingPromise := True, started := started ?q' @ [k]\<rparr>)
                 = q2\<lparr>futures := fs @ futures q\<rparr>"
        by (simp add: q2_def fold_enqueue_while_pending)
      show ?thesis
      proof (cases "sync_throws a")
        case None
        show ?thesis
          unfolding dequeue_idle_Cons [OF np tq] dequeue_idle_Cons [OF np' tq'] q2'
            q2_def [symmetric]
          using None by (simp add: Let_def f2)
      next
        case (Some e)
        define q3 where "q3 = q2\<lparr>pendingPromise := False, futures := futures q2 @ [(k, Rejected e)]\<rparr>"
        have d: "dequeue q = dequeue q3"
          unfolding dequeue_idle_Cons [OF np tq] q2_def [symmetric]
          using Some by (simp add: Let_def q3_def)
        have "dequeue ?q' = dequeue (q3\<lparr>futures := fs @ futures q3\<rparr>)"
          unfolding dequeue_idle_Cons [OF np' tq'] q2'
          using Some by (simp add: Let_def q3_def f2)
        also have "\<dots> = (dequeue q3)\<lparr>futures := fs @ futures (dequeue q3)\<rparr>"
          using "1.IH" [OF np gn [symmetric] refl refl refl refl Some, of fs]
          by (simp add: q3_def q2_def)
        finally show ?thesis by (simp add: d)
      qed
    qed
  qed
qed

lemma dequeue_started_mono: "set (started q) \<subseteq> set (started (dequeue q))"
proof (induction q rule: dequeue.induct)
  case (1 q)
  show ?case
  proof (cases "pendingPromise q")
    case True
    then show ?thesis by (simp add: dequeue_pending)
  next
    case np: False
    show ?thesis
    proof (cases "tasks q")
      case Nil
      then show ?thesis using np by (simp add: dequeue_idle_empty)
    next
      case (Cons t rest)
      obtain k a where t: "t = (k, a)" by (cases t)
      have tq: "tasks q = (k, a) # rest" using Cons t by simp
      have gn: "getNextTask q = (Some (k, a), q\<lparr>tasks := rest\<rparr>)"
        using tq by (simp add: getNextTask_def)
      define q2 where "q2 = fold enqueue_while_pending (sync_enqueues a)
                 (q\<lparr>tasks := rest, pendingPromise := True, started := started q @ [k]\<rparr>)"
      have s2: "started q2 = started q @ [k]"
        by (simp add: q2_def fold_enqueue_while_pending)
      show ?thesis
      proof (cases "sync_throws a")
        case None
        show ?thesis
          unfolding dequeue_idle_Cons [OF np tq] q2_def [symmetric]
          using None by (auto simp: Let_def s2)
      next
        case (Some e)
        define q3 where "q3 = q2\<lparr>pendingPromise := False, futures := futures q2 @ [(k, Rejected e)]\<rparr>"
        have d: "dequeue q = dequeue q3"
          unfolding dequeue_idle_Cons [OF np tq] q2_def [symmetric]
          using Some by (simp add: Let_def q3_def)
        have "set (started q3) \<subseteq> set (started (dequeue q3))"
          using "1.IH" [OF np gn [symmetric] refl refl refl refl Some]
          by (simp add: q3_def q2_def)
        then show ?thesis
          by (auto simp: d q3_def s2)
      qed
    qed
  qed
qed

lemma dequeue_starts_head:
  assumes "\<not> pendingPromise q" "tasks q = (k, a) # rest"
  shows "k \<in> set (started (dequeue q))"
proof -
  define q2 where "q2 = fold enqueue_while_pending (sync_enqueues a)
                 (q\<lparr>tasks := rest, pendingPromise := True, started := started q @ [k]\<rparr>)"
  have s2: "started q2 = started q @ [k]"
    by (simp add: q2_def fold_enqueue_while_pending)
  show ?thesis
  proof (cases "sync_throws a")
    case None
    show ?thesis
      unfolding dequeue_idle_Cons [OF assms] q2_def [symmetric]
      using None by (simp add: Let_def s2)
  next
    case (Some e)
    have "dequeue q = dequeue (q2\<lparr>pendingPromise := False, futures := futures q2 @ [(k, Rejected e)]\<rparr>)"
      unfolding dequeue_idle_Cons [OF assms] q2_def [symmetric]
      using Some by (simp add: Let_def)
    then show ?thesis
      using dequeue_started_mono [of "q2\<lparr>pendingPromise := False, futures := futures q2 @ [(k, Rejected e)]\<rparr>"]
      by (auto simp: s2)
  qed
qed

lemmas queue_eval =
  queue_run_def AsyncQueue_new_def enqueue_def settle_def addTask_def getNextTask_def
  enqueue_while_pending_def dequeue.simps Let_def



lemma dequeue_throwing_head:
  assumes np: "\<not> pendingPromise p" and tq: "tasks p = (j, Action subs (Some e)) # rest"
    and aw: "awaiting p = []"
  shows "\<exists>more. futures (dequeue p) = futures p @ (j, Rejected e) # more \<and>
    (\<forall>pl. settle j (Resolved pl) (dequeue (p\<lparr>tasks := (j, Action subs None) # rest\<rparr>))
        = (dequeue p)\<lparr>futures := futures p @ (j, Resolved pl) # more\<rparr>)"
proof -
  define p2 where "p2 = fold enqueue_while_pending subs
                 (p\<lparr>tasks := rest, pendingPromise := True, started := started p @ [j]\<rparr>)"
  define p3 where "p3 = p2\<lparr>pendingPromise := False, futures := []\<rparr>"
  define more where "more = futures (dequeue p3)"
  have f2: "futures p2 = futures p" and a2: "awaiting p2 = []"
    using aw by (simp_all add: p2_def fold_enqueue_while_pending)
  have step: "dequeue (p2\<lparr>pendingPromise := False, futures := futures p @ [(j, out)]\<rparr>)
      = (dequeue p3)\<lparr>futures := futures p @ (j, out) # more\<rparr>" for out
  proof -
    have "p2\<lparr>pendingPromise := False, futures := futures p @ [(j, out)]\<rparr>
        = p3\<lparr>futures := (futures p @ [(j, out)]) @ futures p3\<rparr>"
      by (simp add: p3_def)
    then have "dequeue (p2\<lparr>pendingPromise := False, futures := futures p @ [(j, out)]\<rparr>)
        = dequeue (p3\<lparr>futures := (futures p @ [(j, out)]) @ futures p3\<rparr>)"
      by (simp only:)
    also have "\<dots> = (dequeue p3)\<lparr>futures := (futures p @ [(j, out)]) @ futures (dequeue p3)\<rparr>"
      by (rule dequeue_futures_prefix)
    finally show ?thesis
      by (simp add: more_def)
  qed
  have thrown: "dequeue p = (dequeue p3)\<lparr>futures := futures p @ (j, Rejected e) # more\<rparr>"
    using dequeue_idle_Cons [OF np tq] step [of "Rejected e"] f2
    by (simp add: Let_def p2_def [symmetric])
  let ?p' = "p\<lparr>tasks := (j, Action subs None) # rest\<rparr>"
  have np': "\<not> pendingPromise ?p'" and tq': "tasks ?p' = (j, Action subs None) # rest"
    using np by simp_all
  have started': "dequeue ?p' = p2\<lparr>awaiting := [j]\<rparr>"
    using dequeue_idle_Cons [OF np' tq'] a2
    by (simp add: Let_def p2_def [symmetric])
  have "p2\<lparr>awaiting := awaiting p2\<rparr> = p2"
    by simp
  then have same: "p2\<lparr>awaiting := []\<rparr> = p2"
    by (simp only: a2)
  have resolved: "settle j (Resolved pl) (dequeue ?p')
      = (dequeue p3)\<lparr>futures := futures p @ (j, Resolved pl) # more\<rparr>" for pl
  proof -
    have "settle j (Resolved pl) (dequeue ?p')
        = dequeue ((p2\<lparr>awaiting := []\<rparr>)\<lparr>pendingPromise := False,
                     futures := futures p @ [(j, Resolved pl)]\<rparr>)"
      by (simp add: settle_def started' f2)
    then show ?thesis
      unfolding same using step [of "Resolved pl"] by simp
  qed
  have "futures (dequeue p) = futures p @ (j, Rejected e) # more"
    by (simp add: thrown)
  moreover have "settle j (Resolved pl) (dequeue ?p')
      = (dequeue p)\<lparr>futures := futures p @ (j, Resolved pl) # more\<rparr>" for pl
    by (simp add: resolved thrown)
  ultimately show ?thesis by blast
qed

lemma dequeue_throwing_head_next:
  assumes np: "\<not> pendingPromise p" and tq: "tasks p = (j, Action subs (Some e)) # rest"
  shows "rest \<noteq> [] \<Longrightarrow> fst (hd rest) \<in> set (started (dequeue p))"
    and "rest = [] \<Longrightarrow> subs \<noteq> [] \<Longrightarrow> enqueued p \<in> set (started (dequeue p))"
    and "rest = [] \<Longrightarrow> subs = [] \<Longrightarrow> \<not> pendingPromise (dequeue p)"
proof -
  define p2 where "p2 = fold enqueue_while_pending subs
                 (p\<lparr>tasks := rest, pendingPromise := True, started := started p @ [j]\<rparr>)"
  define p3 where "p3 = p2\<lparr>pendingPromise := False, futures := futures p2 @ [(j, Rejected e)]\<rparr>"
  have d: "dequeue p = dequeue p3"
    using dequeue_idle_Cons [OF np tq] by (simp add: Let_def p3_def p2_def)
  have np3: "\<not> pendingPromise p3"
    by (simp add: p3_def)
  have t3: "tasks p3 = rest @ zip [enqueued p..<enqueued p + length subs] subs"
    by (simp add: p3_def p2_def fold_enqueue_while_pending)
  show "fst (hd rest) \<in> set (started (dequeue p))" if ne: "rest \<noteq> []"
  proof -
    obtain i a ts where "rest = (i, a) # ts"
      using ne by (cases rest) auto
    then show ?thesis
      using dequeue_starts_head [OF np3, of i a] t3 by (simp add: d)
  qed
  show "enqueued p \<in> set (started (dequeue p))" if em: "rest = []" and ne: "subs \<noteq> []"
  proof -
    obtain a as where s: "subs = a # as"
      using ne by (cases subs) auto
    have "[enqueued p..<enqueued p + length subs]
        = enqueued p # [Suc (enqueued p)..<enqueued p + length subs]"
      using s by (simp add: upt_conv_Cons del: upt_Suc)
    then have "tasks p3 = (enqueued p, a) # zip [Suc (enqueued p)..<enqueued p + length subs] as"
      using em s by (simp add: t3)
    then show ?thesis
      using dequeue_starts_head [OF np3] by (simp add: d)
  qed
  show "\<not> pendingPromise (dequeue p)" if "rest = []" "subs = []"
    using that np3 t3 by (simp add: d dequeue_idle_empty)
qed


lemma rejection_is_local:
  assumes inv: "queue_inv s f q" and k: "k \<in> set (awaiting q)"
  shows "\<exists>more. futures (settle k (Rejected e) q) = futures q @ (k, Rejected e) # more \<and>
           k \<notin> fst ` set more \<and>
           settle k (Resolved p) q
             = (settle k (Rejected e) q)\<lparr>futures := futures q @ (k, Resolved p) # more\<rparr>"
proof -
  define q0 where "q0 = q\<lparr>awaiting := removeAll k (awaiting q), pendingPromise := False,
    futures := []\<rparr>"
  define more where "more = futures (dequeue q0)"
  have st: "settle k out q = (dequeue q0)\<lparr>futures := futures q @ (k, out) # more\<rparr>" for out
  proof -
    have "settle k out q = dequeue (q0\<lparr>futures := (futures q @ [(k, out)]) @ futures q0\<rparr>)"
      using k by (simp add: settle_def q0_def)
    then show ?thesis
      unfolding dequeue_futures_prefix by (simp add: more_def)
  qed
  obtain s' f' where "queue_inv s' f' (settle k (Rejected e) q)"
    using settle_inv [OF inv] by blast
  then have "distinct (map fst (futures (settle k (Rejected e) q)))"
    by (simp add: queue_inv_def queue_ordered_def)
  then have "k \<notin> fst ` set more"
    by (simp add: st)
  then show ?thesis
    by (simp add: st)
qed

lemma idle_after_step:
  assumes "queue_inv s f q" "\<not> pendingPromise q"
  shows "tasks q = [] \<and> (\<forall>a. enqueued q \<in> set (started (enqueue a q)))"
proof -
  have t: "tasks q = []"
    using queue_inv_idle(2) [OF assms] .
  have "enqueued q \<in> set (started (enqueue a q))" for a
    unfolding enqueue_def
    by (rule dequeue_starts_head [where a = a and rest = "[]"])
      (use assms(2) t in \<open>simp_all add: addTask_def\<close>)
  then show ?thesis
    using t by simp
qed

text \<open>
  Claim C3. A task fails when the awaited result of its action rejects, or when its
  action throws as the queue calls it. In every run of a queue:

  \<^item> when the executing task \<open>k\<close> rejects, its own future is rejected and no other
    future is affected: the queue ends in the state it would have reached had the task
    succeeded, except for the outcome recorded for \<open>k\<close>;
  \<^item> when an action enqueued on the idle queue throws, the future of its ticket \<open>j\<close>
    is rejected, and the queue ends in the state it would have reached had the action
    returned and its result been fulfilled, except for the outcome recorded for \<open>j\<close>;
  \<^item> when the executing task \<open>k\<close> completes and the action of the next waiting task
    \<open>j\<close> throws as it is called, the same holds for \<open>j\<close>.

  In each case the busy flag is cleared when nothing waits, the next waiting task is
  started otherwise, and a task enqueued on the idle queue afterwards is started at once.
\<close>

theorem failed_task_rejects_only_its_own_future:
  assumes "q = queue_run evs"
  shows
    "(k \<in> set (awaiting q) \<longrightarrow>
       (let q' = settle k (Rejected e) q in
          (\<exists>more. futures q' = futures q @ (k, Rejected e) # more \<and> k \<notin> fst ` set more \<and>
             settle k (Resolved p) q = q'\<lparr>futures := futures q @ (k, Resolved p) # more\<rparr>) \<and>
          (tasks q = [] \<longrightarrow> \<not> pendingPromise q') \<and>
          (tasks q \<noteq> [] \<longrightarrow> fst (hd (tasks q)) \<in> set (started q')) \<and>
          (\<not> pendingPromise q' \<longrightarrow>
             tasks q' = [] \<and> (\<forall>a. enqueued q' \<in> set (started (enqueue a q')))))) \<and>
     (\<not> pendingPromise q \<longrightarrow>
       (let j = enqueued q; q' = enqueue (Action subs (Some e)) q in
          (\<exists>more. futures q' = futures q @ (j, Rejected e) # more \<and> j \<notin> fst ` set more \<and>
             settle j (Resolved p) (enqueue (Action subs None) q)
               = q'\<lparr>futures := futures q @ (j, Resolved p) # more\<rparr>) \<and>
          (subs = [] \<longrightarrow> \<not> pendingPromise q') \<and>
          (subs \<noteq> [] \<longrightarrow> Suc j \<in> set (started q')) \<and>
          (\<not> pendingPromise q' \<longrightarrow>
             tasks q' = [] \<and> (\<forall>a. enqueued q' \<in> set (started (enqueue a q')))))) \<and>
     (k \<in> set (awaiting q) \<and> tasks q = (j, Action subs (Some e)) # rest \<longrightarrow>
       (let q' = settle k out q in
          (\<exists>more. futures q' = futures q @ (k, out) # (j, Rejected e) # more \<and>
             j \<notin> fst ` set more \<and>
             settle j (Resolved p) (settle k out (q\<lparr>tasks := (j, Action subs None) # rest\<rparr>))
               = q'\<lparr>futures := futures q @ (k, out) # (j, Resolved p) # more\<rparr>) \<and>
          (rest \<noteq> [] \<longrightarrow> fst (hd rest) \<in> set (started q')) \<and>
          (rest = [] \<and> subs \<noteq> [] \<longrightarrow> enqueued q \<in> set (started q')) \<and>
          (rest = [] \<and> subs = [] \<longrightarrow> \<not> pendingPromise q') \<and>
          (\<not> pendingPromise q' \<longrightarrow>
             tasks q' = [] \<and> (\<forall>a. enqueued q' \<in> set (started (enqueue a q'))))))"
proof -
  obtain s f where inv: "queue_inv s f q"
    using queue_run_inv [of evs] assms by blast
  have pend: "pendingPromise q" and aw: "awaiting q = [k]" if "k \<in> set (awaiting q)"
  proof -
    show "pendingPromise q"
      using inv that by (auto simp: queue_inv_def)
    then show "awaiting q = [k]"
      using queue_inv_busy(2) [OF inv] that by simp
  qed
  have by_rejection: "let q' = settle k (Rejected e) q in
          (\<exists>more. futures q' = futures q @ (k, Rejected e) # more \<and> k \<notin> fst ` set more \<and>
             settle k (Resolved p) q = q'\<lparr>futures := futures q @ (k, Resolved p) # more\<rparr>) \<and>
          (tasks q = [] \<longrightarrow> \<not> pendingPromise q') \<and>
          (tasks q \<noteq> [] \<longrightarrow> fst (hd (tasks q)) \<in> set (started q')) \<and>
          (\<not> pendingPromise q' \<longrightarrow>
             tasks q' = [] \<and> (\<forall>a. enqueued q' \<in> set (started (enqueue a q'))))"
    if k: "k \<in> set (awaiting q)"
  proof -
    define q1 where "q1 = q\<lparr>awaiting := removeAll k (awaiting q), pendingPromise := False,
      futures := futures q @ [(k, Rejected e)]\<rparr>"
    have q': "settle k (Rejected e) q = dequeue q1"
      using k by (simp add: settle_def q1_def)
    have np1: "\<not> pendingPromise q1" and t1: "tasks q1 = tasks q"
      by (simp_all add: q1_def)
    obtain s' f' where inv': "queue_inv s' f' (settle k (Rejected e) q)"
      using settle_inv [OF inv] by blast
    have empty: "tasks q = [] \<longrightarrow> \<not> pendingPromise (settle k (Rejected e) q)"
      using np1 t1 by (simp add: q' dequeue_idle_empty)
    have nxt: "tasks q \<noteq> [] \<longrightarrow> fst (hd (tasks q)) \<in> set (started (settle k (Rejected e) q))"
    proof
      assume "tasks q \<noteq> []"
      then obtain i a ts where "tasks q1 = (i, a) # ts"
        using t1 by (cases "tasks q") auto
      then show "fst (hd (tasks q)) \<in> set (started (settle k (Rejected e) q))"
        using dequeue_starts_head [OF np1] t1 by (simp add: q')
    qed
    show ?thesis
      unfolding Let_def
      using rejection_is_local [OF inv k, of e p] empty nxt idle_after_step [OF inv']
      by blast
  qed
  have by_throw_at_once: "let j = enqueued q; q' = enqueue (Action subs (Some e)) q in
          (\<exists>more. futures q' = futures q @ (j, Rejected e) # more \<and> j \<notin> fst ` set more \<and>
             settle j (Resolved p) (enqueue (Action subs None) q)
               = q'\<lparr>futures := futures q @ (j, Resolved p) # more\<rparr>) \<and>
          (subs = [] \<longrightarrow> \<not> pendingPromise q') \<and>
          (subs \<noteq> [] \<longrightarrow> Suc j \<in> set (started q')) \<and>
          (\<not> pendingPromise q' \<longrightarrow>
             tasks q' = [] \<and> (\<forall>a. enqueued q' \<in> set (started (enqueue a q'))))"
    if idle: "\<not> pendingPromise q"
  proof -
    define i where "i = enqueued q"
    define q1 where "q1 = addTask (i, Action subs (Some e)) (q\<lparr>enqueued := Suc i\<rparr>)"
    note empty = queue_inv_idle(2,3) [OF inv idle]
    have q': "enqueue (Action subs (Some e)) q = dequeue q1"
      by (simp add: enqueue_def q1_def i_def)
    have np1: "\<not> pendingPromise q1" and t1: "tasks q1 = (i, Action subs (Some e)) # []"
      and a1: "awaiting q1 = []" and f1: "futures q1 = futures q" and e1: "enqueued q1 = Suc i"
      using idle empty by (simp_all add: q1_def addTask_def)
    have ok: "enqueue (Action subs None) q = dequeue (q1\<lparr>tasks := (i, Action subs None) # []\<rparr>)"
      using empty by (simp add: enqueue_def q1_def addTask_def i_def)
    obtain more where more: "futures (dequeue q1) = futures q @ (i, Rejected e) # more"
      "\<And>pl. settle i (Resolved pl) (enqueue (Action subs None) q)
         = (dequeue q1)\<lparr>futures := futures q @ (i, Resolved pl) # more\<rparr>"
      using dequeue_throwing_head [OF np1 t1 a1] unfolding ok f1 by blast
    obtain s' f' where inv': "queue_inv s' f' (dequeue q1)"
      using enqueue_inv [OF inv, of "Action subs (Some e)"] q' by auto
    then have "distinct (map fst (futures (dequeue q1)))"
      by (simp add: queue_inv_def queue_ordered_def)
    then have fresh: "i \<notin> fst ` set more"
      by (simp add: more(1))
    show ?thesis
      unfolding Let_def i_def [symmetric] q'
      using more fresh dequeue_throwing_head_next(2,3) [OF np1 t1] idle_after_step [OF inv'] e1
      by auto
  qed
  have by_throw_on_start: "let q' = settle k out q in
          (\<exists>more. futures q' = futures q @ (k, out) # (j, Rejected e) # more \<and>
             j \<notin> fst ` set more \<and>
             settle j (Resolved p) (settle k out (q\<lparr>tasks := (j, Action subs None) # rest\<rparr>))
               = q'\<lparr>futures := futures q @ (k, out) # (j, Resolved p) # more\<rparr>) \<and>
          (rest \<noteq> [] \<longrightarrow> fst (hd rest) \<in> set (started q')) \<and>
          (rest = [] \<and> subs \<noteq> [] \<longrightarrow> enqueued q \<in> set (started q')) \<and>
          (rest = [] \<and> subs = [] \<longrightarrow> \<not> pendingPromise q') \<and>
          (\<not> pendingPromise q' \<longrightarrow>
             tasks q' = [] \<and> (\<forall>a. enqueued q' \<in> set (started (enqueue a q'))))"
    if k: "k \<in> set (awaiting q)" and tq: "tasks q = (j, Action subs (Some e)) # rest"
  proof -
    define q1 where "q1 = q\<lparr>awaiting := removeAll k (awaiting q), pendingPromise := False,
      futures := futures q @ [(k, out)]\<rparr>"
    have q': "settle k out q = dequeue q1"
      using k by (simp add: settle_def q1_def)
    have np1: "\<not> pendingPromise q1" and t1: "tasks q1 = (j, Action subs (Some e)) # rest"
      and a1: "awaiting q1 = []" and f1: "futures q1 = futures q @ [(k, out)]"
      and e1: "enqueued q1 = enqueued q"
      using tq aw [OF k] by (simp_all add: q1_def)
    have "(q\<lparr>tasks := (j, Action subs None) # rest\<rparr>)
            \<lparr>awaiting := removeAll k (awaiting q), pendingPromise := False,
             futures := futures q @ [(k, out)]\<rparr>
          = q1\<lparr>tasks := (j, Action subs None) # rest\<rparr>"
      by (rule AsyncQueue.equality) (simp_all add: q1_def)
    then have ok: "settle k out (q\<lparr>tasks := (j, Action subs None) # rest\<rparr>)
        = dequeue (q1\<lparr>tasks := (j, Action subs None) # rest\<rparr>)"
      using k by (simp add: settle_def)
    obtain more where more: "futures (dequeue q1) = futures q @ (k, out) # (j, Rejected e) # more"
      "\<And>pl. settle j (Resolved pl) (settle k out (q\<lparr>tasks := (j, Action subs None) # rest\<rparr>))
         = (dequeue q1)\<lparr>futures := futures q @ (k, out) # (j, Resolved pl) # more\<rparr>"
      using dequeue_throwing_head [OF np1 t1 a1] unfolding ok f1 by auto
    obtain s' f' where inv': "queue_inv s' f' (dequeue q1)"
      using settle_inv [OF inv, of k out] q' by auto
    then have "distinct (map fst (futures (dequeue q1)))"
      by (simp add: queue_inv_def queue_ordered_def)
    then have fresh: "j \<notin> fst ` set more"
      by (simp add: more(1))
    show ?thesis
      unfolding Let_def q'
      using more fresh dequeue_throwing_head_next [OF np1 t1] idle_after_step [OF inv'] e1
      by auto
  qed
  show ?thesis
    using by_rejection by_throw_at_once by_throw_on_start by blast
qed


theorem failed_task_rejects_only_its_own_future_witness:
  "0 \<in> set (awaiting (queue_run [Enqueue (Action [] None), Enqueue (Action [] None)])) \<and>
   futures (settle 0 (Rejected ''x'') (queue_run [Enqueue (Action [] None), Enqueue (Action [] None)]))
     = [(0, Rejected ''x'')] \<and>
   1 \<in> set (started (settle 0 (Rejected ''x'')
                (queue_run [Enqueue (Action [] None), Enqueue (Action [] None)]))) \<and>
   \<not> pendingPromise (queue_run []) \<and>
   futures (enqueue (Action [] (Some ''boom'')) (queue_run [])) = [(0, Rejected ''boom'')] \<and>
   \<not> pendingPromise (enqueue (Action [] (Some ''boom'')) (queue_run [])) \<and>
   1 \<in> set (started (enqueue (Action [] None)
                (enqueue (Action [] (Some ''boom'')) (queue_run [])))) \<and>
   0 \<in> set (awaiting (queue_run [Enqueue (Action [] None), Enqueue (Action [] (Some ''boom'')),
                Enqueue (Action [] None)])) \<and>
   tasks (queue_run [Enqueue (Action [] None), Enqueue (Action [] (Some ''boom'')),
                Enqueue (Action [] None)])
     = (1, Action [] (Some ''boom'')) # [(2, Action [] None)] \<and>
   futures (settle 0 (Resolved ''a'')
              (queue_run [Enqueue (Action [] None), Enqueue (Action [] (Some ''boom'')),
                 Enqueue (Action [] None)]))
     = [(0, Resolved ''a''), (1, Rejected ''boom'')] \<and>
   2 \<in> set (started (settle 0 (Resolved ''a'')
              (queue_run [Enqueue (Action [] None), Enqueue (Action [] (Some ''boom'')),
                 Enqueue (Action [] None)])))"
proof -
  have two: "queue_run [Enqueue (Action [] None), Enqueue (Action [] None)]
    = \<lparr>pendingPromise = True, tasks = [(1, Action [] None)], enqueued = 2, started = [0],
       awaiting = [0], futures = []\<rparr>"
    by (simp add: queue_eval)
  have none: "queue_run []
    = \<lparr>pendingPromise = False, tasks = [], enqueued = 0, started = [],
       awaiting = [], futures = []\<rparr>"
    by (simp add: queue_eval)
  have three: "queue_run [Enqueue (Action [] None), Enqueue (Action [] (Some ''boom'')),
                Enqueue (Action [] None)]
    = \<lparr>pendingPromise = True,
       tasks = [(1, Action [] (Some ''boom'')), (2, Action [] None)], enqueued = 3,
       started = [0], awaiting = [0], futures = []\<rparr>"
    by (simp add: queue_eval)
  note by_rejection = failed_task_rejects_only_its_own_future
    [OF refl, where evs = "[Enqueue (Action [] None), Enqueue (Action [] None)]" and k = 0
       and e = "''x''" and p = "''p''" and subs = "[]" and j = 1 and rest = "[]"
       and out = "Resolved ''a''"]
  note by_throw_at_once = failed_task_rejects_only_its_own_future
    [OF refl, where evs = "[]" and k = 0 and e = "''boom''" and p = "''p''" and subs = "[]"
       and j = 1 and rest = "[]" and out = "Resolved ''a''"]
  note by_throw_on_start = failed_task_rejects_only_its_own_future
    [OF refl, where evs = "[Enqueue (Action [] None), Enqueue (Action [] (Some ''boom'')),
                Enqueue (Action [] None)]" and k = 0 and e = "''boom''" and p = "''p''"
       and subs = "[]" and j = 1 and rest = "[(2, Action [] None)]"
       and out = "Resolved ''a''"]
  show ?thesis
    using by_rejection by_throw_at_once by_throw_on_start
    unfolding two none three Let_def by (simp add: queue_eval)
qed

section \<open>Properties of the bindings\<close>

lemmas session_eval =
  scanned_session_def connected_session_def discovered_session_def connected_twice_def
  notified_twice_def filtering_session_def abc_completions_def answers_for_def
  example_answers_def example_serializeUUID_def
  NobleBindings_new_def init_def emit_def setTimeout_def clearTimeout_def timeout_fires_def
  startScanning_discovering_def startScanning_started_def tick_finally_def
  fetches_completed_def advertisement_fetched_def getAdvertisementData_def
  isAdvertisingWantedCriteria_def connect_def device_emits_def device_handle_def
  emitter_emit_def emitter_on_def listeners_def removeAllListeners_def onConnect_def
  onDisconnect_def onNotify_def characteristics_discovered_def
  discoverServiceCharacteristics_def characteristicMapping_def getCharacteristic_def
  set_characteristic_def AList.update.simps AList.map_entry.simps Let_def

lemma scanned_session_value:
  "scanned_session =
    \<lparr>adapter = True,
     device_by_uuid =
       [(''dev_A'',
         \<lparr>uuid = ''dev_A'', address = ''AA:BB'', addressType = ''public'',
          bleDevice = Some [], paired = False, cachedServices = [],
          cachedCharacteristics = None, localName = Some ''hub'',
          serviceUuids = Some [''00001623-1212-efde-1623-785feabcd123''],
          advertisement =
            \<lparr>adv_localName = Some ''hub'',
             adv_serviceUuids = [''000016231212efde1623785feabcd123''],
             adv_serviceData = []\<rparr>,
          gattServer = False\<rparr>)],
     device_by_address = None, serviceUuidFilterList = [],
     discoveryProcessId = Some 1, timers = [1], timer_count = 2,
     emitted =
       [StateChange ''poweredOn'', ScanStart,
        Discover ''dev_A'' ''AA:BB'' ''public'' True
          \<lparr>adv_localName = Some ''hub'',
           adv_serviceUuids = [''000016231212efde1623785feabcd123''],
           adv_serviceData = []\<rparr>
          False]\<rparr>"
  by (simp add: session_eval packUUID_unfold toLowerCase_def toLowerCase_char_eval
      replace_hyphens_unfold)

text \<open>
  Claim C9 says that \<open>startScanning\<close> completes its option normalization without
  throwing when the filter is a single UUID, a list of UUIDs, or omitted. It does for a
  single UUID and for a list. When the filter is omitted (an options object without
  \<open>services\<close>, or no argument at all) \<open>options.services\<close> is \<open>undefined\<close> and the
  call of \<open>options.services.map\<close> throws a \<open>TypeError\<close> before the transport is
  queried.
\<close>

theorem startScanning_without_filter_throws:
  "startScanning (JObj []) scanned_session = Inl TypeError \<and>
   startScanning Undefined scanned_session = Inl TypeError \<and>
   startScanning (JObj [(''allowDuplicates'', JBool True)]) scanned_session = Inl TypeError \<and>
   startScanning (JStr ''180F'') scanned_session = Inr [''180f''] \<and>
   startScanning (JArr [JStr ''180F'', JStr ''180A'']) scanned_session = Inr [''180f'', ''180a'']"
  by (simp add: startScanning_def normalize_options_def scanned_session_value packUUID_unfold
      toLowerCase_def toLowerCase_char_eval replace_hyphens_unfold)

lemma stopScanning_answered_registry:
  "device_by_uuid (stopScanning_answered discovering stopped st) = device_by_uuid st"
  by (simp add: stopScanning_answered_def emit_def clearTimeout_def Let_def
      split: sum.split bool.split option.split)

text \<open>
  Claim C7 says that a successful \<open>stopScanning\<close> emits \<open>scanStop\<close>, empties the device
  registry and cancels the discovery timer. The callback emits the event and cancels the
  timer, but it assigns the empty object to \<open>_device_by_address\<close>, a property that
  nothing reads; the registry \<open>_device_by_uuid\<close> keeps every device.
\<close>

theorem stopScanning_keeps_registry:
  "stopScanning scanned_session = Inr () \<and>
   map fst (device_by_uuid (stopScanning_answered (Inr True) (Inr ()) scanned_session))
     = [''dev_A''] \<and>
   device_by_address (stopScanning_answered (Inr True) (Inr ()) scanned_session) = Some [] \<and>
   emitted (stopScanning_answered (Inr True) (Inr ()) scanned_session)
     = emitted scanned_session @ [ScanStop] \<and>
   discoveryProcessId (stopScanning_answered (Inr True) (Inr ()) scanned_session) = None \<and>
   timers (stopScanning_answered (Inr True) (Inr ()) scanned_session) = []"
  by (simp add: stopScanning_def stopScanning_answered_def scanned_session_value emit_def
      clearTimeout_def)


lemmas uuid_eval =
  packUUID_unfold unpackUUID_unfold toLowerCase_def toLowerCase_char_eval replace_hyphens_unfold slice_def

lemma connected_session_cache:
  "getCharacteristic ''dev_A'' ''180f'' ''2a19'' connected_session = Inl TypeError"
  by (simp add: scanned_session_value connected_session_def connect_def device_emits_def
      device_handle_def emitter_emit_def emitter_on_def listeners_def onConnect_def emit_def
      getCharacteristic_def uuid_eval)

lemma scanned_session_cache:
  "getCharacteristic ''dev_A'' ''180f'' ''2a19'' scanned_session = Inl TypeError"
  by (simp add: scanned_session_value getCharacteristic_def)

text \<open>
  Claim C1 says that \<open>read\<close>, \<open>write\<close> and \<open>notify\<close> return silently when the
  device, the service or the characteristic is not cached. For a registered device whose
  service has no discovered characteristics, \<open>_getCharacteristic\<close> throws a
  \<open>TypeError\<close>, and so do the three operations: after a connection, when the cache is
  empty, and before any connection, when \<open>cachedCharacteristics\<close> is \<open>undefined\<close>.
\<close>

theorem read_write_notify_throw_for_undiscovered_service:
  "map_of (device_by_uuid connected_session) ''dev_A'' \<noteq> None \<and>
   read ''dev_A'' ''180f'' ''2a19'' connected_session = Inl TypeError \<and>
   write_data ''dev_A'' ''180f'' ''2a19'' [1] False connected_session = Inl TypeError \<and>
   notify ''dev_A'' ''180f'' ''2a19'' True connected_session = Inl TypeError \<and>
   read ''dev_A'' ''180f'' ''2a19'' scanned_session = Inl TypeError"
proof -
  have "map_of (device_by_uuid connected_session) ''dev_A'' \<noteq> None"
    by (simp add: scanned_session_value connected_session_def connect_def device_emits_def
      device_handle_def emitter_emit_def emitter_on_def listeners_def onConnect_def emit_def)
  then show ?thesis
    by (simp add: read_def write_data_def notify_def connected_session_cache
        scanned_session_cache)
qed

lemma getCharacteristic_unknown_device:
  "map_of (device_by_uuid st) d = None \<Longrightarrow> getCharacteristic d s c st = Inr None"
  by (simp add: getCharacteristic_def)

lemma unknown_device_is_no_op:
  assumes "map_of (device_by_uuid st) d = None"
  shows "read d s c st = Inr st" and "write_data d s c v w st = Inr st"
    and "notify d s c en st = Inr st"
  using assms by (simp_all add: read_def write_data_def notify_def getCharacteristic_def)

lemma absent_characteristic_is_no_op:
  assumes "map_of (device_by_uuid st) d = Some dev" "cachedCharacteristics dev = Some cache"
    "map_of cache (unpackUUID s) = Some entry" "map_of entry (unpackUUID c) = None"
  shows "read d s c st = Inr st" and "write_data d s c v w st = Inr st"
    and "notify d s c en st = Inr st"
  using assms by (simp_all add: read_def write_data_def notify_def getCharacteristic_def)

lemma undiscovered_service_throws:
  assumes "map_of (device_by_uuid st) d = Some dev"
    and "cachedCharacteristics dev = None \<or>
         (\<exists>cache. cachedCharacteristics dev = Some cache \<and> map_of cache (unpackUUID s) = None)"
  shows "read d s c st = Inl TypeError" and "write_data d s c v w st = Inl TypeError"
    and "notify d s c en st = Inl TypeError"
  using assms by (auto simp: read_def write_data_def notify_def getCharacteristic_def)


lemma map_of_update_same: "map_of (AList.update k v al) k = Some v"
  by (simp add: update_conv')

lemma map_of_map_entry_same:
  "map_of al k = Some x \<Longrightarrow> map_of (AList.map_entry k f al) k = Some (f x)"
  by (simp add: map_of_map_entry)

lemma connect_registered:
  assumes "map_of (device_by_uuid st) d = Some dev" "bleDevice dev = Some h"
  shows "connect d st =
    Inr (st\<lparr>device_by_uuid :=
          AList.update d
            (dev\<lparr>bleDevice := Some (h @ [(''connect'', OnConnect), (''disconnect'', OnDisconnect)])\<rparr>)
            (device_by_uuid st)\<rparr>)"
  using assms by (simp add: connect_def emitter_on_def)

lemma connect_times_handle:
  assumes "map_of (device_by_uuid st) d = Some dev" "bleDevice dev = Some h"
  shows "\<exists>st'. connect_times n d st = Inr st' \<and> emitted st' = emitted st \<and>
           map_of (device_by_uuid st') d \<noteq> None \<and>
           device_handle d st' =
             h @ concat (replicate n [(''connect'', OnConnect), (''disconnect'', OnDisconnect)])"
  using assms
proof (induction n arbitrary: st dev h)
  case 0
  then show ?case by (simp add: device_handle_def)
next
  case (Suc n)
  let ?h = "h @ [(''connect'', OnConnect), (''disconnect'', OnDisconnect)]"
  let ?dev = "dev\<lparr>bleDevice := Some ?h\<rparr>"
  let ?st = "st\<lparr>device_by_uuid := AList.update d ?dev (device_by_uuid st)\<rparr>"
  have c: "connect d st = Inr ?st"
    using connect_registered [OF Suc.prems] .
  have "map_of (device_by_uuid ?st) d = Some ?dev" "bleDevice ?dev = Some ?h"
    by (simp_all add: map_of_update_same)
  from Suc.IH [OF this] obtain st' where
    "connect_times n d ?st = Inr st'" "emitted st' = emitted ?st"
    "map_of (device_by_uuid st') d \<noteq> None"
    "device_handle d st' =
       ?h @ concat (replicate n [(''connect'', OnConnect), (''disconnect'', OnDisconnect)])"
    by blast
  then show ?case
    using c by simp
qed

lemma listeners_append: "listeners name (a @ b) = listeners name a @ listeners name b"
  by (simp add: listeners_def)

lemma listeners_connect_pairs:
  "listeners ''connect''
     (concat (replicate n [(''connect'', OnConnect), (''disconnect'', OnDisconnect)]))
   = replicate n OnConnect"
  "listeners ''disconnect''
     (concat (replicate n [(''connect'', OnConnect), (''disconnect'', OnDisconnect)]))
   = replicate n OnDisconnect"
  by (induction n) (simp_all add: listeners_def)

lemma onConnect_registered:
  assumes "map_of (device_by_uuid st) d \<noteq> None"
  shows "emitted (onConnect d st) = emitted st @ [Connect d]"
    and "map_of (device_by_uuid (onConnect d st)) d \<noteq> None"
    and "emitted (onDisconnect d st) = emitted st @ [Disconnect d]"
    and "map_of (device_by_uuid (onDisconnect d st)) d \<noteq> None"
  using assms
  by (auto simp: onConnect_def onDisconnect_def emit_def map_of_update_same)

lemma fold_onConnect:
  "map_of (device_by_uuid st) d \<noteq> None \<Longrightarrow> set ls \<subseteq> {OnConnect} \<Longrightarrow>
   emitted (fold (call_listener (Device_event d)) ls st) = emitted st @ map (\<lambda>l. Connect d) ls"
proof (induction ls arbitrary: st)
  case Nil
  show ?case by simp
next
  case (Cons l ls)
  then have l: "l = OnConnect" by simp
  show ?case
    using Cons.IH [OF onConnect_registered(2) [OF Cons.prems(1)]] Cons.prems(2)
      onConnect_registered(1) [OF Cons.prems(1)]
    by (simp add: l)
qed

lemma fold_onDisconnect:
  "map_of (device_by_uuid st) d \<noteq> None \<Longrightarrow> set ls \<subseteq> {OnDisconnect} \<Longrightarrow>
   emitted (fold (call_listener (Device_event d)) ls st) = emitted st @ map (\<lambda>l. Disconnect d) ls"
proof (induction ls arbitrary: st)
  case Nil
  show ?case by simp
next
  case (Cons l ls)
  then have l: "l = OnDisconnect" by simp
  show ?case
    using Cons.IH [OF onConnect_registered(4) [OF Cons.prems(1)]] Cons.prems(2)
      onConnect_registered(3) [OF Cons.prems(1)]
    by (simp add: l)
qed

text \<open>
  Claim C5, amended. Every call of \<open>connect\<close> for a registered device with a device
  object binds one more \<open>connect\<close> listener and one more \<open>disconnect\<close> listener on
  that object. After \<open>n\<close> calls on a device object that carried none, it carries \<open>n\<close>
  of each, and one \<open>connect\<close> or \<open>disconnect\<close> event of the transport produces \<open>n\<close>
  emitted \<open>connect\<close> or \<open>disconnect\<close> events: exactly one after exactly one call.
\<close>

theorem connect_binds_listeners_on_every_call:
  assumes "map_of (device_by_uuid st) d = Some dev" and "bleDevice dev = Some h"
    and "listeners ''connect'' h = []" and "listeners ''disconnect'' h = []"
  shows "\<exists>st'. connect_times n d st = Inr st' \<and>
           listeners ''connect'' (device_handle d st') = replicate n OnConnect \<and>
           listeners ''disconnect'' (device_handle d st') = replicate n OnDisconnect \<and>
           emitted (device_emits ''connect'' d st') = emitted st @ replicate n (Connect d) \<and>
           emitted (device_emits ''disconnect'' d st') = emitted st @ replicate n (Disconnect d)"
proof -
  obtain st' where st': "connect_times n d st = Inr st'" "emitted st' = emitted st"
    "map_of (device_by_uuid st') d \<noteq> None"
    "device_handle d st' =
       h @ concat (replicate n [(''connect'', OnConnect), (''disconnect'', OnDisconnect)])"
    using connect_times_handle [OF assms(1,2), of n] by blast
  have lc: "listeners ''connect'' (device_handle d st') = replicate n OnConnect"
    and ld: "listeners ''disconnect'' (device_handle d st') = replicate n OnDisconnect"
    using assms(3,4) by (simp_all add: st'(4) listeners_append listeners_connect_pairs)
  have sub: "set (replicate n OnConnect) \<subseteq> {OnConnect}"
    "set (replicate n OnDisconnect) \<subseteq> {OnDisconnect}"
    by auto
  have ec: "emitted (device_emits ''connect'' d st') = emitted st @ replicate n (Connect d)"
    unfolding device_emits_def emitter_emit_def lc
    using fold_onConnect [OF st'(3) sub(1)] st'(2)
    by (simp add: map_replicate_const del: fold_replicate)
  have ed: "emitted (device_emits ''disconnect'' d st') = emitted st @ replicate n (Disconnect d)"
    unfolding device_emits_def emitter_emit_def ld
    using fold_onDisconnect [OF st'(3) sub(2)] st'(2)
    by (simp add: map_replicate_const del: fold_replicate)
  show ?thesis
    using st'(1) lc ld ec ed by blast
qed

lemma connected_twice_value:
  "connect_times 2 ''dev_A'' scanned_session = Inr connected_twice"
  by (simp add: connected_twice_def numeral_2_eq_2 scanned_session_value connect_def
      emitter_on_def)

text \<open>
  Claim C5 as stated fails: after two calls of \<open>connect\<close> the device object carries two
  \<open>connect\<close> and two \<open>disconnect\<close> listeners, and one \<open>connect\<close> event of the
  transport is emitted twice.
\<close>

theorem connect_twice_counterexample:
  "connect_times 2 ''dev_A'' scanned_session = Inr connected_twice \<and>
   listeners ''connect'' (device_handle ''dev_A'' connected_twice) = [OnConnect, OnConnect] \<and>
   listeners ''disconnect'' (device_handle ''dev_A'' connected_twice)
     = [OnDisconnect, OnDisconnect] \<and>
   \<not> length (listeners ''connect'' (device_handle ''dev_A'' connected_twice)) \<le> 1 \<and>
   emitted (device_emits ''connect'' ''dev_A'' connected_twice)
     = emitted connected_twice @ [Connect ''dev_A'', Connect ''dev_A'']"
proof -
  have h: "device_handle ''dev_A'' connected_twice =
    [(''connect'', OnConnect), (''disconnect'', OnDisconnect),
     (''connect'', OnConnect), (''disconnect'', OnDisconnect)]"
    by (simp add: connected_twice_def numeral_2_eq_2 scanned_session_value connect_def
      emitter_on_def device_handle_def)
  have e: "emitted (device_emits ''connect'' ''dev_A'' connected_twice)
     = emitted connected_twice @ [Connect ''dev_A'', Connect ''dev_A'']"
    unfolding device_emits_def h
    by (simp add: connected_twice_def numeral_2_eq_2 scanned_session_value connect_def
      emitter_on_def emitter_emit_def listeners_def onConnect_def emit_def)
  show ?thesis
    using connected_twice_value e by (simp add: h listeners_def)
qed

theorem connect_binds_listeners_on_every_call_witness:
  "connect_times 1 ''dev_A'' scanned_session = Inr connected_once \<and>
   listeners ''connect'' (device_handle ''dev_A'' connected_once) = [OnConnect] \<and>
   listeners ''disconnect'' (device_handle ''dev_A'' connected_once) = [OnDisconnect] \<and>
   emitted (device_emits ''connect'' ''dev_A'' connected_once)
     = emitted scanned_session @ [Connect ''dev_A''] \<and>
   emitted (device_emits ''disconnect'' ''dev_A'' connected_once)
     = emitted scanned_session @ [Disconnect ''dev_A'']"
proof -
  obtain dev where d: "map_of (device_by_uuid scanned_session) ''dev_A'' = Some dev"
    "bleDevice dev = Some []"
    by (simp add: scanned_session_value)
  have once: "connect_times 1 ''dev_A'' scanned_session = Inr connected_once"
    by (simp add: connected_once_def scanned_session_value connect_def emitter_on_def)
  show ?thesis
    using connect_binds_listeners_on_every_call [OF d, of 1] once by (simp add: listeners_def)
qed

lemma getCharacteristic_set:
  assumes "getCharacteristic d s c st = Inr (Some ch)"
  shows "getCharacteristic d s c (set_characteristic d s c ch' st) = Inr (Some ch')"
proof -
  obtain dev cache entry where
    "map_of (device_by_uuid st) d = Some dev" "cachedCharacteristics dev = Some cache"
    "map_of cache (unpackUUID s) = Some entry"
    using assms by (auto simp: getCharacteristic_def split: option.splits)
  then show ?thesis
    by (simp add: getCharacteristic_def set_characteristic_def map_of_map_entry_same
        map_of_update_same)
qed

lemma emitted_set_characteristic:
  "emitted (set_characteristic d s c ch st) = emitted st"
  by (simp add: set_characteristic_def)

lemma notify_times_handle:
  assumes "getCharacteristic d s c st = Inr (Some ch)"
  shows "\<exists>st' ch'. notify_times n d s c st = Inr st' \<and> emitted st' = emitted st \<and>
           getCharacteristic d s c st' = Inr (Some ch') \<and>
           characteristic ch' =
             characteristic ch @ replicate n (''valuechanged'', OnNotify d s c)"
  using assms
proof (induction n arbitrary: st ch)
  case 0
  then show ?case by simp
next
  case (Suc n)
  let ?ch = "ch\<lparr>characteristic := characteristic ch @ [(''valuechanged'', OnNotify d s c)]\<rparr>"
  let ?st = "set_characteristic d s c ?ch st"
  have c: "notify d s c True st = Inr ?st"
    using Suc.prems by (simp add: notify_def emitter_on_def)
  have "getCharacteristic d s c ?st = Inr (Some ?ch)"
    using getCharacteristic_set [OF Suc.prems] .
  from Suc.IH [OF this] obtain st' ch' where
    "notify_times n d s c ?st = Inr st'" "emitted st' = emitted ?st"
    "getCharacteristic d s c st' = Inr (Some ch')"
    "characteristic ch' = characteristic ?ch @ replicate n (''valuechanged'', OnNotify d s c)"
    by blast
  then show ?case
    using c by (simp add: emitted_set_characteristic replicate_append_same)
qed

lemma fold_onNotify:
  "emitted (fold (call_listener (Value v)) ls st) = emitted st @ concat (map (forwarded v) ls)"
proof (induction ls arbitrary: st)
  case Nil
  show ?case by simp
next
  case (Cons l ls)
  show ?case
    by (cases l) (simp_all add: Cons.IH onNotify_def emit_def)
qed

lemma listeners_valuechanged_replicate:
  "listeners ''valuechanged'' (replicate n (''valuechanged'', l)) = replicate n l"
  by (induction n) (simp_all add: listeners_def)

lemma concat_forwarded_replicate:
  "concat (map (forwarded v) (replicate n (OnNotify d s c))) = replicate n (Read d s c v True)"
  by (induction n) simp_all

text \<open>
  Claim C4, amended. Every call of \<open>notify(..., true)\<close> on a cached characteristic
  attaches one more value-change listener. After \<open>n\<close> calls on a characteristic object
  that carried none, it carries \<open>n\<close> listeners, and one value-change notification is
  forwarded as \<open>n\<close> \<open>read\<close> events with \<open>isNotification = true\<close>: exactly one
  after exactly one call. A following \<open>notify(..., false)\<close> removes all of them.
\<close>

theorem notify_attaches_a_listener_on_every_call:
  assumes "getCharacteristic d s c st = Inr (Some ch)"
    and "listeners ''valuechanged'' (characteristic ch) = []"
  shows "\<exists>st'. notify_times n d s c st = Inr st' \<and>
           listeners ''valuechanged'' (characteristic_handle d s c st')
             = replicate n (OnNotify d s c) \<and>
           emitted st' = emitted st \<and>
           emitted (characteristic_emits d s c v st')
             = emitted st @ replicate n (Read d s c v True) \<and>
           (\<exists>st''. notify d s c False st' = Inr st'' \<and>
              listeners ''valuechanged'' (characteristic_handle d s c st'') = [])"
proof -
  obtain st' ch' where st': "notify_times n d s c st = Inr st'" "emitted st' = emitted st"
    "getCharacteristic d s c st' = Inr (Some ch')"
    "characteristic ch' = characteristic ch @ replicate n (''valuechanged'', OnNotify d s c)"
    using notify_times_handle [OF assms(1), of n] by blast
  have h: "characteristic_handle d s c st'
      = characteristic ch @ replicate n (''valuechanged'', OnNotify d s c)"
    by (simp add: characteristic_handle_def st'(3,4))
  have l: "listeners ''valuechanged'' (characteristic_handle d s c st')
      = replicate n (OnNotify d s c)"
    using assms(2) by (simp add: h listeners_append listeners_valuechanged_replicate)
  have e: "emitted (characteristic_emits d s c v st')
      = emitted st @ replicate n (Read d s c v True)"
    unfolding characteristic_emits_def emitter_emit_def l fold_onNotify
    by (simp add: st'(2) concat_forwarded_replicate)
  let ?off = "set_characteristic d s c
     (ch'\<lparr>characteristic := removeAllListeners ''valuechanged'' (characteristic ch')\<rparr>) st'"
  have "notify d s c False st' = Inr ?off"
    by (simp add: notify_def st'(3))
  moreover have "listeners ''valuechanged'' (characteristic_handle d s c ?off) = []"
    using getCharacteristic_set [OF st'(3)]
    by (simp add: characteristic_handle_def listeners_def removeAllListeners_def)
  ultimately show ?thesis
    using st'(1,2) l e by blast
qed


lemma connected_session_device:
  "map_of (device_by_uuid connected_session) ''dev_A'' =
     Some \<lparr>uuid = ''dev_A'', address = ''AA:BB'', addressType = ''public'',
          bleDevice = Some [(''connect'', OnConnect), (''disconnect'', OnDisconnect)],
          paired = False, cachedServices = [],
          cachedCharacteristics = Some [], localName = Some ''hub'',
          serviceUuids = Some [''00001623-1212-efde-1623-785feabcd123''],
          advertisement =
            \<lparr>adv_localName = Some ''hub'',
             adv_serviceUuids = [''000016231212efde1623785feabcd123''],
             adv_serviceData = []\<rparr>,
          gattServer = False\<rparr>"
  by (simp add: scanned_session_value connected_session_def connect_def device_emits_def
      device_handle_def emitter_emit_def emitter_on_def listeners_def onConnect_def emit_def)

lemma discovered_session_characteristic:
  "getCharacteristic ''dev_A'' ''000016231212efde1623785feabcd123''
     ''000016241212efde1623785feabcd123'' discovered_session
   = Inr (Some \<lparr>characteristic = [], readQueue = AsyncQueue_new, writeQueue = AsyncQueue_new\<rparr>)"
  by (simp add: discovered_session_def characteristics_discovered_def connected_session_device
      discoverServiceCharacteristics_def getCharacteristic_def emit_def map_of_update_same
      uuid_eval)

text \<open>
  Claim C4 as stated fails: after two calls of \<open>notify(..., true)\<close> the characteristic
  object carries two value-change listeners, and one value-change notification is
  forwarded as two \<open>read\<close> events.
\<close>

theorem notify_twice_counterexample:
  "notify_times 2 ''dev_A'' ''000016231212efde1623785feabcd123''
     ''000016241212efde1623785feabcd123'' discovered_session = Inr notified_twice \<and>
   listeners ''valuechanged''
     (characteristic_handle ''dev_A'' ''000016231212efde1623785feabcd123''
        ''000016241212efde1623785feabcd123'' notified_twice)
     = [OnNotify ''dev_A'' ''000016231212efde1623785feabcd123''
          ''000016241212efde1623785feabcd123'',
        OnNotify ''dev_A'' ''000016231212efde1623785feabcd123''
          ''000016241212efde1623785feabcd123''] \<and>
   length (listeners ''valuechanged''
     (characteristic_handle ''dev_A'' ''000016231212efde1623785feabcd123''
        ''000016241212efde1623785feabcd123'' notified_twice)) \<noteq> 1 \<and>
   emitted (characteristic_emits ''dev_A'' ''000016231212efde1623785feabcd123''
        ''000016241212efde1623785feabcd123'' [7] notified_twice)
     = emitted notified_twice @
       [Read ''dev_A'' ''000016231212efde1623785feabcd123''
          ''000016241212efde1623785feabcd123'' [7] True,
        Read ''dev_A'' ''000016231212efde1623785feabcd123''
          ''000016241212efde1623785feabcd123'' [7] True]"
proof -
  let ?d = "''dev_A''" and ?s = "''000016231212efde1623785feabcd123''"
    and ?c = "''000016241212efde1623785feabcd123''"
  obtain st' ch' where st': "notify_times 2 ?d ?s ?c discovered_session = Inr st'"
    and em: "emitted st' = emitted discovered_session"
    and ch': "getCharacteristic ?d ?s ?c st' = Inr (Some ch')"
      "characteristic ch' = replicate 2 (''valuechanged'', OnNotify ?d ?s ?c)"
    using notify_times_handle [OF discovered_session_characteristic, of 2] by auto
  have tw: "notified_twice = st'"
    by (simp add: notified_twice_def st')
  have h: "characteristic_handle ?d ?s ?c st' = replicate 2 (''valuechanged'', OnNotify ?d ?s ?c)"
    by (simp add: characteristic_handle_def ch')
  have l: "listeners ''valuechanged'' (characteristic_handle ?d ?s ?c st')
      = [OnNotify ?d ?s ?c, OnNotify ?d ?s ?c]"
    unfolding h listeners_valuechanged_replicate by (simp add: numeral_2_eq_2)
  have e: "emitted (characteristic_emits ?d ?s ?c [7] st')
      = emitted st' @ [Read ?d ?s ?c [7] True, Read ?d ?s ?c [7] True]"
    unfolding characteristic_emits_def emitter_emit_def l fold_onNotify by simp
  show ?thesis
    unfolding tw using st' l e by simp
qed

theorem notify_attaches_a_listener_on_every_call_witness:
  "notify_times 1 ''dev_A'' ''000016231212efde1623785feabcd123''
     ''000016241212efde1623785feabcd123'' discovered_session = Inr notified_once \<and>
   listeners ''valuechanged''
     (characteristic_handle ''dev_A'' ''000016231212efde1623785feabcd123''
        ''000016241212efde1623785feabcd123'' notified_once)
     = [OnNotify ''dev_A'' ''000016231212efde1623785feabcd123''
          ''000016241212efde1623785feabcd123''] \<and>
   emitted (characteristic_emits ''dev_A'' ''000016231212efde1623785feabcd123''
        ''000016241212efde1623785feabcd123'' [7] notified_once)
     = emitted discovered_session @
       [Read ''dev_A'' ''000016231212efde1623785feabcd123''
          ''000016241212efde1623785feabcd123'' [7] True]"
proof -
  obtain st' where st': "notify_times 1 ''dev_A'' ''000016231212efde1623785feabcd123''
     ''000016241212efde1623785feabcd123'' discovered_session = Inr st'"
    and rest: "listeners ''valuechanged''
      (characteristic_handle ''dev_A'' ''000016231212efde1623785feabcd123''
         ''000016241212efde1623785feabcd123'' st')
      = replicate 1 (OnNotify ''dev_A'' ''000016231212efde1623785feabcd123''
          ''000016241212efde1623785feabcd123'')"
      "emitted (characteristic_emits ''dev_A'' ''000016231212efde1623785feabcd123''
         ''000016241212efde1623785feabcd123'' [7] st')
       = emitted discovered_session @
         replicate 1 (Read ''dev_A'' ''000016231212efde1623785feabcd123''
           ''000016241212efde1623785feabcd123'' [7] True)"
    using notify_attaches_a_listener_on_every_call
      [OF discovered_session_characteristic, of 1 "[7]"]
    by (auto simp: listeners_def simp del: notify_times.simps One_nat_def)
  have "notified_once = st'"
    unfolding notified_once_def st' by simp
  then show ?thesis
    using st' rest by (simp del: notify_times.simps One_nat_def) simp
qed

section \<open>Properties of the discovery tick\<close>




lemma advertisement_fetched_filter:
  "serviceUuidFilterList (advertisement_fetched k r st) = serviceUuidFilterList st"
  by (simp add: advertisement_fetched_def emit_def Let_def split: sum.split)




lemma fetches_completed_Nil: "fetches_completed ser [] st = st"
  by (simp add: fetches_completed_def)

lemma fetches_completed_Cons:
  "fetches_completed ser ((a, ans) # cs) st
     = fetches_completed ser cs (advertisement_fetched (ser a) (getAdvertisementData ans) st)"
  by (simp add: fetches_completed_def)

lemma fetches_completed_filter:
  "serviceUuidFilterList (fetches_completed ser cs st) = serviceUuidFilterList st"
  by (induction cs arbitrary: st)
     (auto simp: fetches_completed_Nil fetches_completed_Cons advertisement_fetched_filter)

















end
